theory Spec2Isabelle
  imports Main
begin

section \<open>Nestable activation checkpointing (torch/utils/checkpoint.py)\<close>

text \<open>
  A shallow embedding of the nestable checkpoint engine of
  \<^verbatim>\<open>torch/utils/checkpoint.py\<close>: the keyword-argument packing helpers, the
  identity-save adapter, the checkpoint frame, the global checkpoint stacks, the two
  saved-tensor interceptors and the region entry point.  Mutable Python objects live in
  explicit heaps of a state record that every operation takes and returns; every
  exception of the source is a value of the type \<open>error\<close>.
\<close>

subsection \<open>Values and errors\<close>

datatype dtype = Floating | Complex | Integral

text \<open>
  A value passed to a checkpointed function is a tensor, of which the engine only looks at
  the element type and the \<^verbatim>\<open>requires_grad\<close> flag (the payload stands for the data), or
  any other Python object.
\<close>

datatype tensor = Tensor (payload: int) (dt: dtype) (requires_grad: bool)

datatype val = T tensor | NonTensor int

datatype error =
    IndexError
  | KeyError
  | TypeError
  | AttributeError
  | AssertionError
  | StopRecomputationError
  | DoubleConsumption
  | MissingRecomputedValue

text \<open>
  \<open>DoubleConsumption\<close> is the \<^verbatim>\<open>RuntimeError\<close> of \<^verbatim>\<open>unpack_hook\<close> raised when
  \<^verbatim>\<open>holder.handle is None\<close>, \<open>MissingRecomputedValue\<close> the one raised when the handle has
  no entry in the cache of the innermost frame.
\<close>

fun isinstance_Tensor :: "val \<Rightarrow> bool" where
  "isinstance_Tensor (T t) = True"
| "isinstance_Tensor (NonTensor n) = False"

fun is_floating_point :: "val \<Rightarrow> bool" where
  "is_floating_point (T t) = (dt t = Floating)"
| "is_floating_point (NonTensor n) = False"

fun is_complex :: "val \<Rightarrow> bool" where
  "is_complex (T t) = (dt t = Complex)"
| "is_complex (NonTensor n) = False"

fun val_requires_grad :: "val \<Rightarrow> bool" where
  "val_requires_grad (T t) = requires_grad t"
| "val_requires_grad (NonTensor n) = False"

text \<open>
  \<^verbatim>\<open>x.detach()\<close>: the same data cut off from the graph, so not requiring grad; an object
  that is no tensor has no such method.
\<close>

fun detach :: "val \<Rightarrow> error + val" where
  "detach (T t) = Inr (T (Tensor (payload t) (dt t) False))"
| "detach (NonTensor n) = Inl AttributeError"

subsection \<open>Packing keyword arguments\<close>

text \<open>
  A Python \<^verbatim>\<open>dict\<close> keeps its keys unique and in insertion order: an association list,
  built by \<open>dict_setitem\<close>, which overwrites the value of a key already present in place.
\<close>

type_synonym 'v pydict = "(string \<times> 'v) list"

fun dict_setitem :: "'v pydict \<Rightarrow> string \<Rightarrow> 'v \<Rightarrow> 'v pydict" where
  "dict_setitem [] k v = [(k, v)]"
| "dict_setitem ((k', v') # d) k v =
     (if k' = k then (k', v) # d else (k', v') # dict_setitem d k v)"

fun dict_of_pairs :: "'v pydict \<Rightarrow> (string \<times> 'v) list \<Rightarrow> 'v pydict" where
  "dict_of_pairs d [] = d"
| "dict_of_pairs d ((k, v) # ps) = dict_of_pairs (dict_setitem d k v) ps"

text \<open>
  \<^verbatim>\<open>_pack_kwargs\<close>: the loop over \<^verbatim>\<open>kwargs.items()\<close> appends each key to
  \<^verbatim>\<open>kwarg_keys\<close> and each value to \<^verbatim>\<open>flat_args\<close>, which starts as the positional
  arguments.
\<close>

fun pack_kwargs_loop :: "'v pydict \<Rightarrow> 'v list \<Rightarrow> string list \<Rightarrow> 'v list \<times> string list" where
  "pack_kwargs_loop [] flat_args kwarg_keys = (flat_args, kwarg_keys)"
| "pack_kwargs_loop ((k, v) # items) flat_args kwarg_keys =
     pack_kwargs_loop items (flat_args @ [v]) (kwarg_keys @ [k])"

definition pack_kwargs :: "'v list \<Rightarrow> 'v pydict \<Rightarrow> 'v list \<times> string list" where
  "pack_kwargs args kwargs = pack_kwargs_loop kwargs args []"

text \<open>
  \<^verbatim>\<open>_unpack_kwargs\<close>: the assertion, the early return for no keys, then the two slices
  \<^verbatim>\<open>flat_args[:-n]\<close> and \<^verbatim>\<open>flat_args[-n:]\<close> for \<open>n = len(kwarg_keys) > 0\<close>, which the
  assertion keeps within the tuple.
\<close>

definition unpack_kwargs :: "'v list \<Rightarrow> string list \<Rightarrow> error + ('v list \<times> 'v pydict)" where
  "unpack_kwargs flat_args kwarg_keys =
     (if \<not> length kwarg_keys \<le> length flat_args then Inl AssertionError
      else if length kwarg_keys = 0 then Inr (flat_args, [])
      else Inr (take (length flat_args - length kwarg_keys) flat_args,
                dict_of_pairs []
                  (zip kwarg_keys (drop (length flat_args - length kwarg_keys) flat_args))))"

subsection \<open>Handles, holders, frames and the global state\<close>

text \<open>
  A \<^verbatim>\<open>_Handle\<close> has no field: it is its identity, a number.  A \<^verbatim>\<open>_Holder\<close> is a heap
  cell with the field \<^verbatim>\<open>handle\<close> (\<open>None\<close> once consumed).  The frame only keeps weak
  references to holders; \<open>collected\<close> says that the holder was reclaimed, which is when
  calling a weak reference to it gives \<^verbatim>\<open>None\<close>.
\<close>

type_synonym handle_id = nat
type_synonym holder_ref = nat
type_synonym frame_ref = nat
type_synonym gid = int

record holder =
  handle :: "handle_id option"
  collected :: bool

text \<open>
  The callbacks \<^verbatim>\<open>fn\<close> and \<^verbatim>\<open>recompute_fn\<close> are code of the caller.  What the engine
  sees of a call is the sequence of tensors it saves for backward, in order (and, for
  \<^verbatim>\<open>fn\<close>, the value it returns): a callback is the function from its inputs to that
  sequence.
\<close>

type_synonym callback = "val list \<Rightarrow> tensor list"

text \<open>
  \<^verbatim>\<open>_CheckpointFrame\<close>.  The three \<^verbatim>\<open>defaultdict\<close>s are total functions of the
  backward-invocation identifier, with the default of the source where no entry was
  written.  An entry of the \<^verbatim>\<open>WeakKeyDictionary\<close> whose handle no holder owns any more
  cannot be looked up again; the model leaves it in the map.
\<close>

record frame =
  recompute_fn :: callback
  maybe_args :: "val list option"
  args_idx :: "nat list option"
  child_args_idx :: "nat list"
  args_handles :: "holder_ref list option"
  weak_holders :: "holder_ref list"
  recomputed :: "gid \<Rightarrow> handle_id \<Rightarrow> val option"
  recomp_counter :: "gid \<Rightarrow> nat"
  is_recomputed :: "gid \<Rightarrow> bool"

text \<open>
  The saved-tensor hooks that the engine has on its hook stack: \<^verbatim>\<open>_checkpoint_hook()\<close>
  and \<^verbatim>\<open>_recomputation_hook(weakref.ref(frame), gid)\<close>.
\<close>

datatype hook = CheckpointHook | RecomputationHook frame_ref gid

text \<open>
  One entry per call of a frame's \<^verbatim>\<open>recompute_fn\<close>: the frame, the identifier, the inputs,
  and what the callback finds when it starts (the innermost hook, the gradient mode and
  the top of \<^verbatim>\<open>_checkpoint_stacks\<close>).
\<close>

record call =
  call_frame :: frame_ref
  call_gid :: gid
  call_args :: "val list"
  call_hook :: "hook option"
  call_grad :: bool
  call_stack :: "(frame_ref list \<times> bool) option"

text \<open>
  The state: the module globals \<^verbatim>\<open>_checkpoint_stacks\<close> (a list of
  \<^verbatim>\<open>_CheckpointStack(stack, is_recompute)\<close>) and \<^verbatim>\<open>_enable_checkpoint_early_stop\<close>, the
  heaps of frames and holders with their allocation counters, the engine's hook stack
  (innermost first) and gradient mode, and the log of callback calls.
\<close>

record state =
  checkpoint_stacks :: "(frame_ref list \<times> bool) list"
  enable_checkpoint_early_stop :: bool
  frames :: "frame_ref \<Rightarrow> frame"
  holders :: "holder_ref \<Rightarrow> holder"
  next_frame :: nat
  next_holder :: nat
  next_handle :: nat
  hooks :: "hook list"
  grad_enabled :: bool
  calls :: "call list"

definition upd_frame :: "frame_ref \<Rightarrow> (frame \<Rightarrow> frame) \<Rightarrow> state \<Rightarrow> state" where
  "upd_frame f g s = s\<lparr>frames := (frames s)(f := g (frames s f))\<rparr>"

definition set_handle :: "holder_ref \<Rightarrow> handle_id option \<Rightarrow> state \<Rightarrow> state" where
  "set_handle h ho s = s\<lparr>holders := (holders s)(h := (holders s h)\<lparr>handle := ho\<rparr>)\<rparr>"

definition new_Handle :: "state \<Rightarrow> handle_id \<times> state" where
  "new_Handle s = (next_handle s, s\<lparr>next_handle := Suc (next_handle s)\<rparr>)"

definition new_Holder :: "handle_id \<Rightarrow> state \<Rightarrow> holder_ref \<times> state" where
  "new_Holder h s =
     (next_holder s,
      s\<lparr>holders := (holders s)(next_holder s := \<lparr>handle = Some h, collected = False\<rparr>),
        next_holder := Suc (next_holder s)\<rparr>)"

definition init_frame :: "callback \<Rightarrow> frame" where
  "init_frame f =
     \<lparr>recompute_fn = f, maybe_args = None, args_idx = None, child_args_idx = [],
      args_handles = None, weak_holders = [], recomputed = (\<lambda>g. Map.empty),
      recomp_counter = (\<lambda>g. 0), is_recomputed = (\<lambda>g. False)\<rparr>"

definition new_CheckpointFrame :: "callback \<Rightarrow> state \<Rightarrow> frame_ref \<times> state" where
  "new_CheckpointFrame f s =
     (next_frame s,
      s\<lparr>frames := (frames s)(next_frame s := init_frame f), next_frame := Suc (next_frame s)\<rparr>)"

text \<open>
  The state of a fresh module: \<^verbatim>\<open>_checkpoint_stacks\<close> holds one empty stack that is no
  recomputation, early stop is off, nothing is allocated, no hook is registered.
\<close>

definition init_state :: state where
  "init_state =
     \<lparr>checkpoint_stacks = [([], False)], enable_checkpoint_early_stop = False,
      frames = (\<lambda>f. init_frame (\<lambda>a. [])),
      holders = (\<lambda>h. \<lparr>handle = None, collected = True\<rparr>),
      next_frame = 0, next_holder = 0, next_handle = 0,
      hooks = [], grad_enabled = True, calls = []\<rparr>"

subsection \<open>The inner interceptor: \<^verbatim>\<open>_recomputation_hook\<close>\<close>

text \<open>
  The body of \<^verbatim>\<open>if holder is not None\<close>: a holder whose handle was cleared gets a fresh
  handle; the right-hand side \<^verbatim>\<open>x if recomp_idx in child_args_idx else x.detach()\<close> is
  evaluated and stored in \<^verbatim>\<open>recomputed[gid]\<close> under the handle.
\<close>

definition record_recomputed ::
  "frame_ref \<Rightarrow> gid \<Rightarrow> nat \<Rightarrow> holder_ref \<Rightarrow> val \<Rightarrow> state \<Rightarrow> (error + unit) \<times> state" where
  "record_recomputed target g recomp_idx hr x s =
     (case (case handle (holders s hr) of
              None \<Rightarrow> (case new_Handle s of (h, s') \<Rightarrow> (h, set_handle hr (Some h) s'))
            | Some h \<Rightarrow> (h, s)) of
        (h, s1) \<Rightarrow>
          (case (if recomp_idx \<in> set (child_args_idx (frames s1 target)) then Inr x
                 else detach x) of
             Inl e \<Rightarrow> (Inl e, s1)
           | Inr v \<Rightarrow>
               (Inr (),
                upd_frame target
                  (\<lambda>fr. fr\<lparr>recomputed := (recomputed fr)(g := (recomputed fr g)(h \<mapsto> v))\<rparr>)
                  s1)))"

definition recomputation_pack_hook ::
  "frame_ref \<Rightarrow> gid \<Rightarrow> val \<Rightarrow> state \<Rightarrow> (error + val) \<times> state" where
  "recomputation_pack_hook target g x s =
     (let recomp_idx = recomp_counter (frames s target) g;
          s1 = upd_frame target
                 (\<lambda>fr. fr\<lparr>recomp_counter := (recomp_counter fr)(g := recomp_idx + 1)\<rparr>) s
      in if \<not> recomp_idx < length (weak_holders (frames s1 target)) then (Inl IndexError, s1)
         else
           (let hr = weak_holders (frames s1 target) ! recomp_idx in
            case (if collected (holders s1 hr) then (Inr (), s1)
                  else record_recomputed target g recomp_idx hr x s1) of
              (Inl e, s2) \<Rightarrow> (Inl e, s2)
            | (Inr u, s2) \<Rightarrow>
                if enable_checkpoint_early_stop s2 \<and>
                   recomp_counter (frames s2 target) g = length (weak_holders (frames s2 target))
                then (Inl StopRecomputationError, s2)
                else (case detach x of Inl e \<Rightarrow> (Inl e, s2) | Inr d \<Rightarrow> (Inr d, s2))))"

definition recomputation_unpack_hook :: "val \<Rightarrow> val" where
  "recomputation_unpack_hook x = x"

subsection \<open>The outer interceptor: \<^verbatim>\<open>_checkpoint_hook.pack_hook\<close>\<close>

text \<open>
  What a save leaves in the graph: the value itself when no hook is registered, what the
  inner hook returns, or the pair \<^verbatim>\<open>(holder, tuple(current_frames))\<close> of the outer hook.
\<close>

datatype packed = Plain val | Placeholder holder_ref "frame_ref list"

definition checkpoint_pack_hook :: "val \<Rightarrow> state \<Rightarrow> (error + packed) \<times> state" where
  "checkpoint_pack_hook unused_x s =
     (if checkpoint_stacks s = [] then (Inl IndexError, s)
      else
        (case last (checkpoint_stacks s) of
           (current_frames, is_recompute) \<Rightarrow>
             if current_frames = [] then (Inl IndexError, s)
             else
               (let top_frame = last current_frames in
                case new_Handle s of
                  (h, s1) \<Rightarrow>
                    (case new_Holder h s1 of
                       (hr, s2) \<Rightarrow>
                         (Inr (Placeholder hr current_frames),
                          upd_frame top_frame
                            (\<lambda>fr. fr\<lparr>weak_holders := weak_holders fr @ [hr]\<rparr>) s2)))))"

subsection \<open>Saving through the engine\<close>

text \<open>
  Modelled from the spec: the differentiation engine, which is not part of the module,
  routes every value-retention event through the save-transform of the innermost
  registered interceptor pair (section 6 of the specification); with no pair registered
  the value itself is kept.
\<close>

definition save_for_backward :: "val \<Rightarrow> state \<Rightarrow> (error + packed) \<times> state" where
  "save_for_backward x s =
     (case hooks s of
        [] \<Rightarrow> (Inr (Plain x), s)
      | CheckpointHook # hs \<Rightarrow> checkpoint_pack_hook x s
      | RecomputationHook target g # hs \<Rightarrow>
          (case recomputation_pack_hook target g x s of
             (Inl e, s') \<Rightarrow> (Inl e, s')
           | (Inr v, s') \<Rightarrow> (Inr (Plain v), s')))"

text \<open>Saving a sequence of values in order; the first exception ends it.\<close>

fun run_saves :: "val list \<Rightarrow> state \<Rightarrow> (error + unit) \<times> state" where
  "run_saves [] s = (Inr (), s)"
| "run_saves (x # xs) s =
     (case save_for_backward x s of
        (Inl e, s') \<Rightarrow> (Inl e, s')
      | (Inr p, s') \<Rightarrow> run_saves xs s')"

subsection \<open>The nested-input adapter\<close>

definition NoopSaveInputs_forward :: "val list \<Rightarrow> val list" where
  "NoopSaveInputs_forward args = args"

text \<open>
  \<^verbatim>\<open>ctx.save_for_backward(*inputs)\<close> in \<^verbatim>\<open>setup_context\<close>, as the engine carries it out
  (it is not part of the module): the arguments are taken in order, an argument that is
  no tensor raises \<^verbatim>\<open>TypeError\<close>, and a tensor is saved, that is, passed to the innermost
  registered hook.
\<close>

fun ctx_save_for_backward :: "val list \<Rightarrow> state \<Rightarrow> (error + unit) \<times> state" where
  "ctx_save_for_backward [] s = (Inr (), s)"
| "ctx_save_for_backward (x # xs) s =
     (if \<not> isinstance_Tensor x then (Inl TypeError, s)
      else
        (case save_for_backward x s of
           (Inl e, s') \<Rightarrow> (Inl e, s')
         | (Inr p, s') \<Rightarrow> ctx_save_for_backward xs s'))"

text \<open>
  \<^verbatim>\<open>_NoopSaveInputs.apply\<close>: \<^verbatim>\<open>forward\<close> returns the inputs, \<^verbatim>\<open>setup_context\<close> saves the
  inputs for backward.  \<^verbatim>\<open>torch.autograd.Function.apply\<close> is the engine's: it records the
  call in the graph, and only then carries out the saves, when grad mode is on and some
  input requires grad; otherwise nothing is saved.  How it wraps the outputs of a function
  (it may mark an output as requiring grad) is the parameter \<open>wrap\<close>.
\<close>

definition NoopSaveInputs_apply ::
  "(val list \<Rightarrow> val list) \<Rightarrow> val list \<Rightarrow> state \<Rightarrow> (error + val list) \<times> state" where
  "NoopSaveInputs_apply wrap args s =
     (let output = NoopSaveInputs_forward args in
      if grad_enabled s \<and> (\<exists>v \<in> set args. val_requires_grad v)
      then (case ctx_save_for_backward args s of
              (Inl e, s') \<Rightarrow> (Inl e, s')
            | (Inr u, s') \<Rightarrow> (Inr (wrap output), s'))
      else (Inr (wrap output), s))"

text \<open>
  The generator expression of \<^verbatim>\<open>_applyAutogradFunctionToSaveInputs\<close> over
  \<^verbatim>\<open>enumerate(new_args)\<close>, from position \<open>i\<close> on.
\<close>

fun detach_listed :: "nat list \<Rightarrow> nat \<Rightarrow> val list \<Rightarrow> error + val list" where
  "detach_listed idx i [] = Inr []"
| "detach_listed idx i (t # ts) =
     (case (if i \<in> set idx then detach t else Inr t) of
        Inl e \<Rightarrow> Inl e
      | Inr t' \<Rightarrow>
          (case detach_listed idx (Suc i) ts of
             Inl e \<Rightarrow> Inl e
           | Inr r \<Rightarrow> Inr (t' # r)))"

definition idx_no_req_grad :: "val list \<Rightarrow> nat list" where
  "idx_no_req_grad args =
     filter (\<lambda>i. isinstance_Tensor (args ! i) \<and> \<not> val_requires_grad (args ! i) \<and>
                 (is_floating_point (args ! i) \<or> is_complex (args ! i)))
       [0..<length args]"

definition applyAutogradFunctionToSaveInputs ::
  "(val list \<Rightarrow> val list) \<Rightarrow> val list \<Rightarrow> state \<Rightarrow> (error + val list) \<times> state" where
  "applyAutogradFunctionToSaveInputs wrap args s =
     (case NoopSaveInputs_apply wrap args s of
        (Inl e, s') \<Rightarrow> (Inl e, s')
      | (Inr new_args, s') \<Rightarrow> (detach_listed (idx_no_req_grad args) 0 new_args, s'))"

subsection \<open>Frame methods\<close>

text \<open>
  The loop of \<^verbatim>\<open>get_args_from_parent\<close>: the weak reference at each recorded position is
  called, the holder must be alive, and its handle is looked up in the parent's cache.
  \<^verbatim>\<open>WeakKeyDictionary.__getitem__\<close> raises \<^verbatim>\<open>TypeError\<close> on the key \<^verbatim>\<open>None\<close> and
  \<^verbatim>\<open>KeyError\<close> on a missing key.
\<close>

fun args_from_parent :: "frame \<Rightarrow> gid \<Rightarrow> state \<Rightarrow> nat list \<Rightarrow> error + val list" where
  "args_from_parent parent g s [] = Inr []"
| "args_from_parent parent g s (idx # idxs) =
     (if \<not> idx < length (weak_holders parent) then Inl IndexError
      else if collected (holders s (weak_holders parent ! idx)) then Inl AssertionError
      else
        (case handle (holders s (weak_holders parent ! idx)) of
           None \<Rightarrow> Inl TypeError
         | Some h \<Rightarrow>
             (case recomputed parent g h of
                None \<Rightarrow> Inl KeyError
              | Some v \<Rightarrow>
                  (case args_from_parent parent g s idxs of
                     Inl e \<Rightarrow> Inl e
                   | Inr out \<Rightarrow> Inr (v # out)))))"

definition get_args_from_parent ::
  "frame_ref \<Rightarrow> frame_ref \<Rightarrow> gid \<Rightarrow> state \<Rightarrow> error + val list" where
  "get_args_from_parent self parent_frame g s =
     (case args_idx (frames s self) of
        None \<Rightarrow> Inl AssertionError
      | Some idxs \<Rightarrow> args_from_parent (frames s parent_frame) g s idxs)"

definition save_args_to_parent ::
  "(val list \<Rightarrow> val list) \<Rightarrow> frame_ref \<Rightarrow> frame_ref \<Rightarrow> val list \<Rightarrow> state \<Rightarrow>
     (error + val list) \<times> state" where
  "save_args_to_parent wrap self parent_frame args s =
     (let parent_pre_len = length (weak_holders (frames s parent_frame)) in
      case applyAutogradFunctionToSaveInputs wrap args s of
        (Inl e, s1) \<Rightarrow> (Inl e, s1)
      | (Inr new_args, s1) \<Rightarrow>
          (let wh = weak_holders (frames s1 parent_frame);
               s2 = upd_frame self
                      (\<lambda>fr. fr\<lparr>args_handles :=
                                  Some (drop parent_pre_len (take (length wh) wh))\<rparr>) s1;
               indices = [parent_pre_len..<length (weak_holders (frames s2 parent_frame))];
               s3 = upd_frame parent_frame
                      (\<lambda>fr. fr\<lparr>child_args_idx := child_args_idx fr @ indices\<rparr>) s2;
               s4 = upd_frame self (\<lambda>fr. fr\<lparr>args_idx := Some indices\<rparr>) s3
           in (Inr new_args, s4)))"

subsection \<open>The outer interceptor: \<^verbatim>\<open>_checkpoint_hook.unpack_hook\<close>\<close>

text \<open>
  The call \<^verbatim>\<open>frame.recompute_fn(*args)\<close>: it is logged, and the callback's saves go
  through the engine.
\<close>

definition call_recompute_fn ::
  "frame_ref \<Rightarrow> gid \<Rightarrow> val list \<Rightarrow> state \<Rightarrow> (error + unit) \<times> state" where
  "call_recompute_fn fr g args s =
     run_saves (map T (recompute_fn (frames s fr) args))
       (s\<lparr>calls := calls s @
            [\<lparr>call_frame = fr, call_gid = g, call_args = args,
              call_hook = (case hooks s of [] \<Rightarrow> None | h # hs \<Rightarrow> Some h),
              call_grad = grad_enabled s,
              call_stack = (if checkpoint_stacks s = [] then None
                            else Some (last (checkpoint_stacks s)))\<rparr>]\<rparr>)"

text \<open>
  The body of the \<^verbatim>\<open>try\<close>: the new stack entry is appended, the two context managers are
  entered, the callback runs, the assertion is checked, and the context managers are left
  (also by an exception) in reverse order.
\<close>

definition try_recompute ::
  "frame_ref \<Rightarrow> gid \<Rightarrow> val list \<Rightarrow> state \<Rightarrow> (error + unit) \<times> state" where
  "try_recompute fr g args s =
     (let s1 = s\<lparr>checkpoint_stacks := checkpoint_stacks s @ [([], True)]\<rparr>;
          s2 = s1\<lparr>hooks := RecomputationHook fr g # hooks s1\<rparr>;
          prev = grad_enabled s2;
          s3 = s2\<lparr>grad_enabled := True\<rparr>
      in case call_recompute_fn fr g args s3 of
           (r, s4) \<Rightarrow>
             (let r' = (case r of
                          Inl e \<Rightarrow> Inl e
                        | Inr u \<Rightarrow>
                            if enable_checkpoint_early_stop s4 then Inl AssertionError
                            else Inr ());
                  s5 = s4\<lparr>grad_enabled := prev\<rparr>;
                  s6 = s5\<lparr>hooks := tl (hooks s5)\<rparr>
              in (r', s6)))"

text \<open>
  One iteration of \<^verbatim>\<open>for i in range(len(frames))\<close>.  \<open>frame_args\<close> is the choice of the
  inputs (\<^verbatim>\<open>if frame.maybe_args is None\<close>); \<^verbatim>\<open>frames[i - 1]\<close> is the last frame for
  \<open>i = 0\<close>.  Only \<^verbatim>\<open>_StopRecomputationError\<close> is caught, and only its handler pops
  \<^verbatim>\<open>_checkpoint_stacks\<close>.
\<close>

definition frame_args :: "frame_ref list \<Rightarrow> gid \<Rightarrow> nat \<Rightarrow> state \<Rightarrow> error + val list" where
  "frame_args frs g i s =
     (case maybe_args (frames s (frs ! i)) of
        None \<Rightarrow>
          get_args_from_parent (frs ! i) (if i = 0 then last frs else frs ! (i - 1)) g s
      | Some a \<Rightarrow> Inr a)"

definition recompute_frame ::
  "frame_ref list \<Rightarrow> gid \<Rightarrow> nat \<Rightarrow> state \<Rightarrow> (error + unit) \<times> state" where
  "recompute_frame frs g i s =
     (let fr = frs ! i in
      if is_recomputed (frames s fr) g then (Inr (), s)
      else
        (case frame_args frs g i s of
           Inl e \<Rightarrow> (Inl e, s)
         | Inr args \<Rightarrow>
             (case try_recompute fr g args s of
                (Inl e, s1) \<Rightarrow>
                  if e = StopRecomputationError
                  then (Inr (),
                        upd_frame fr (\<lambda>f. f\<lparr>is_recomputed := (is_recomputed f)(g := True)\<rparr>)
                          (s1\<lparr>checkpoint_stacks := butlast (checkpoint_stacks s1)\<rparr>))
                  else (Inl e, s1)
              | (Inr u, s1) \<Rightarrow>
                  (Inr (),
                   upd_frame fr (\<lambda>f. f\<lparr>is_recomputed := (is_recomputed f)(g := True)\<rparr>) s1))))"

fun recompute_frames ::
  "frame_ref list \<Rightarrow> gid \<Rightarrow> nat list \<Rightarrow> state \<Rightarrow> (error + unit) \<times> state" where
  "recompute_frames frs g [] s = (Inr (), s)"
| "recompute_frames frs g (i # is) s =
     (case recompute_frame frs g i s of
        (Inl e, s') \<Rightarrow> (Inl e, s')
      | (Inr u, s') \<Rightarrow> recompute_frames frs g is s')"

text \<open>
  The identifier: \<^verbatim>\<open>torch._C._current_graph_task_id()\<close> is the input \<open>current\<close>
  (\<open>-1\<close> outside of a backward call) and \<^verbatim>\<open>int(uuid.uuid4())\<close> is the input \<open>uuid\<close>.
\<close>

definition restore_gid :: "int \<Rightarrow> int \<Rightarrow> gid" where
  "restore_gid current uuid = (if current = - 1 then uuid else current)"

definition checkpoint_unpack_hook ::
  "int \<Rightarrow> int \<Rightarrow> holder_ref \<times> frame_ref list \<Rightarrow> state \<Rightarrow> (error + val) \<times> state" where
  "checkpoint_unpack_hook current uuid saved s =
     (case saved of
        (hr, frs) \<Rightarrow>
          if frs = [] then (Inl IndexError, s)
          else
            (let top_frame = last frs;
                 g = restore_gid current uuid
             in case recompute_frames frs g [0..<length frs] s of
                  (Inl e, s1) \<Rightarrow> (Inl e, s1)
                | (Inr u, s1) \<Rightarrow>
                    (case handle (holders s1 hr) of
                       None \<Rightarrow> (Inl DoubleConsumption, s1)
                     | Some h \<Rightarrow>
                         (case recomputed (frames s1 top_frame) g h of
                            None \<Rightarrow> (Inl MissingRecomputedValue, s1)
                          | Some ret \<Rightarrow> (Inr ret, set_handle hr None s1)))))"

subsection \<open>Entering a region: \<^verbatim>\<open>_checkpoint_impl\<close>\<close>

text \<open>
  \<^verbatim>\<open>curr_stack\<close> is the list object of the entry that is last in \<^verbatim>\<open>_checkpoint_stacks\<close>
  when the region is entered, at position \<open>k\<close>; \<^verbatim>\<open>append\<close> and \<^verbatim>\<open>pop\<close> change that
  object.  The body \<open>fn\<close> is any code: it takes the inputs and the state and returns a
  value or raises, in a new state (it may save tensors and enter regions itself).  An
  exception of \<open>fn\<close> leaves the \<^verbatim>\<open>with\<close> block, which unregisters the hook, and skips
  \<^verbatim>\<open>curr_stack.pop()\<close>.
\<close>

definition stack_append :: "nat \<Rightarrow> frame_ref \<Rightarrow> state \<Rightarrow> state" where
  "stack_append k fr s =
     s\<lparr>checkpoint_stacks :=
         (checkpoint_stacks s)
           [k := (fst (checkpoint_stacks s ! k) @ [fr], snd (checkpoint_stacks s ! k))]\<rparr>"

definition stack_pop :: "nat \<Rightarrow> state \<Rightarrow> (error + unit) \<times> state" where
  "stack_pop k s =
     (if fst (checkpoint_stacks s ! k) = [] then (Inl IndexError, s)
      else (Inr (),
            s\<lparr>checkpoint_stacks :=
                (checkpoint_stacks s)
                  [k := (butlast (fst (checkpoint_stacks s ! k)),
                         snd (checkpoint_stacks s ! k))]\<rparr>))"

definition save_region_args ::
  "(val list \<Rightarrow> val list) \<Rightarrow> frame_ref \<Rightarrow> frame_ref list \<Rightarrow> bool \<Rightarrow> val list \<Rightarrow> state \<Rightarrow>
     (error + val list) \<times> state" where
  "save_region_args wrap new_frame curr_stack is_curr_stack_recompute args s =
     (if length curr_stack > 0 then save_args_to_parent wrap new_frame (last curr_stack) args s
      else if is_curr_stack_recompute then
        (case applyAutogradFunctionToSaveInputs wrap args s of
           (Inl e, s1) \<Rightarrow> (Inl e, s1)
         | (Inr args', s1) \<Rightarrow>
             (Inr args', upd_frame new_frame (\<lambda>fr. fr\<lparr>maybe_args := Some args'\<rparr>) s1))
      else (Inr args, upd_frame new_frame (\<lambda>fr. fr\<lparr>maybe_args := Some args\<rparr>) s))"

definition checkpoint_impl ::
  "(val list \<Rightarrow> val list) \<Rightarrow> (val list \<Rightarrow> state \<Rightarrow> (error + 'r) \<times> state) \<Rightarrow> callback \<Rightarrow>
     val list \<Rightarrow> state \<Rightarrow> (error + 'r) \<times> state" where
  "checkpoint_impl wrap fn recompute args s =
     (if checkpoint_stacks s = [] then (Inl IndexError, s)
      else
        (case last (checkpoint_stacks s) of
           (curr_stack, is_curr_stack_recompute) \<Rightarrow>
             (let k = length (checkpoint_stacks s) - 1 in
              case new_CheckpointFrame recompute s of
                (new_frame, s1) \<Rightarrow>
                  (case save_region_args wrap new_frame curr_stack is_curr_stack_recompute
                          args s1 of
                     (Inl e, s2) \<Rightarrow> (Inl e, s2)
                   | (Inr args', s2) \<Rightarrow>
                       (let s3 = stack_append k new_frame s2;
                            s4 = s3\<lparr>hooks := CheckpointHook # hooks s3\<rparr>
                        in case fn args' s4 of
                             (r, s5) \<Rightarrow>
                               (let s6 = s5\<lparr>hooks := tl (hooks s5)\<rparr>
                                in case r of
                                     Inl e \<Rightarrow> (Inl e, s6)
                                   | Inr ret \<Rightarrow>
                                       (case stack_pop k s6 of
                                          (Inl e, s7) \<Rightarrow> (Inl e, s7)
                                        | (Inr u, s7) \<Rightarrow> (Inr ret, s7))))))))"

text \<open>
  A body that does nothing but save tensors and return a value.
\<close>

definition saving_body ::
  "callback \<Rightarrow> 'r \<Rightarrow> val list \<Rightarrow> state \<Rightarrow> (error + 'r) \<times> state" where
  "saving_body saves ret args s =
     (case run_saves (map T (saves args)) s of
        (Inl e, s') \<Rightarrow> (Inl e, s')
      | (Inr u, s') \<Rightarrow> (Inr ret, s'))"

subsection \<open>Example regions\<close>

text \<open>
  A region whose body saves two tensors, its inputs, and the state inside that region:
  its frame is on the stack and the outer hook is registered.
\<close>

definition example_saves :: callback where
  "example_saves args = [Tensor 10 Floating True, Tensor 20 Floating True]"

definition example_fn :: "val list \<Rightarrow> state \<Rightarrow> (error + val) \<times> state" where
  "example_fn = saving_body example_saves (NonTensor 0)"

definition example_args :: "val list" where
  "example_args = [T (Tensor 5 Floating True), NonTensor 7]"

definition in_region :: state where
  "in_region =
     init_state\<lparr>checkpoint_stacks := [([0], False)],
       frames := (frames init_state)
         (0 := (init_frame example_saves)\<lparr>maybe_args := Some example_args\<rparr>),
       next_frame := 1, hooks := [CheckpointHook]\<rparr>"

subsection \<open>What the engine may do to the outputs of a function\<close>



definition mark_outputs :: "val list \<Rightarrow> val list" where
  "mark_outputs outs =
     (if \<exists>v \<in> set outs. val_requires_grad v
      then map (\<lambda>v. case v of
                     T t \<Rightarrow> if dt t \<noteq> Integral then T (Tensor (payload t) (dt t) True) else v
                   | NonTensor n \<Rightarrow> v) outs
      else outs)"


subsection \<open>What a replay leaves unchanged\<close>

text \<open>
  \<open>same_shape\<close>: two values of a frame that differ at most in the cache and the counter.
  \<open>replay_step\<close>: what saves through the inner hook of a frame, for an identifier, leave
  unchanged.  \<open>recompute_call\<close> is the log entry of a call of \<^verbatim>\<open>recompute_fn\<close> made by
  \<^verbatim>\<open>unpack_hook\<close>.
\<close>

definition same_shape :: "frame \<Rightarrow> frame \<Rightarrow> bool" where
  "same_shape a b =
     (recompute_fn b = recompute_fn a \<and> maybe_args b = maybe_args a \<and>
      args_idx b = args_idx a \<and> child_args_idx b = child_args_idx a \<and>
      args_handles b = args_handles a \<and> weak_holders b = weak_holders a \<and>
      is_recomputed b = is_recomputed a)"

definition replay_step :: "frame_ref \<Rightarrow> gid \<Rightarrow> state \<Rightarrow> state \<Rightarrow> bool" where
  "replay_step target g s s' =
     (checkpoint_stacks s' = checkpoint_stacks s \<and>
      enable_checkpoint_early_stop s' = enable_checkpoint_early_stop s \<and>
      next_frame s' = next_frame s \<and> next_holder s' = next_holder s \<and>
      hooks s' = hooks s \<and> grad_enabled s' = grad_enabled s \<and> calls s' = calls s \<and>
      (\<forall>f. same_shape (frames s f) (frames s' f)) \<and>
      (\<forall>f. f \<noteq> target \<longrightarrow> frames s' f = frames s f) \<and>
      (\<forall>g'. g' \<noteq> g \<longrightarrow>
         recomp_counter (frames s' target) g' = recomp_counter (frames s target) g' \<and>
         recomputed (frames s' target) g' = recomputed (frames s target) g') \<and>
      (\<forall>h. collected (holders s' h) = collected (holders s h)))"

definition recompute_call :: "frame_ref \<Rightarrow> gid \<Rightarrow> val list \<Rightarrow> call" where
  "recompute_call fr g args =
     \<lparr>call_frame = fr, call_gid = g, call_args = args,
      call_hook = Some (RecomputationHook fr g), call_grad = True,
      call_stack = Some ([], True)\<rparr>"

text \<open>
  \<open>same_recording\<close>: two values of a frame with the same callback, inputs and recorded
  positions.  \<open>restore_step\<close>: what the recomputations of a restore for an identifier
  leave unchanged; in particular a frame already recomputed for the identifier is not
  touched, and no flag is ever reset.
\<close>

definition same_recording :: "frame \<Rightarrow> frame \<Rightarrow> bool" where
  "same_recording a b =
     (recompute_fn b = recompute_fn a \<and> maybe_args b = maybe_args a \<and>
      args_idx b = args_idx a \<and> child_args_idx b = child_args_idx a \<and>
      args_handles b = args_handles a \<and> weak_holders b = weak_holders a)"

definition restore_step :: "gid \<Rightarrow> state \<Rightarrow> state \<Rightarrow> bool" where
  "restore_step g s s' =
     (enable_checkpoint_early_stop s' = enable_checkpoint_early_stop s \<and>
      next_frame s' = next_frame s \<and> next_holder s' = next_holder s \<and>
      hooks s' = hooks s \<and> grad_enabled s' = grad_enabled s \<and>
      (\<forall>f. same_recording (frames s f) (frames s' f)) \<and>
      (\<forall>f. is_recomputed (frames s f) g \<longrightarrow> frames s' f = frames s f) \<and>
      (\<forall>f g'. g' \<noteq> g \<longrightarrow>
         is_recomputed (frames s' f) g' = is_recomputed (frames s f) g' \<and>
         recomp_counter (frames s' f) g' = recomp_counter (frames s f) g' \<and>
         recomputed (frames s' f) g' = recomputed (frames s f) g') \<and>
      (\<forall>f g'. is_recomputed (frames s f) g' \<longrightarrow> is_recomputed (frames s' f) g') \<and>
      (\<forall>h. collected (holders s' h) = collected (holders s h)))"

text \<open>
  The state after the example region has run once from the fresh state, with early stop
  as the module has it (off), and the same state with early stop switched on.
\<close>

definition after_forward :: state where
  "after_forward =
     snd (checkpoint_impl mark_outputs example_fn example_saves example_args init_state)"

definition after_forward_early :: state where
  "after_forward_early = after_forward\<lparr>enable_checkpoint_early_stop := True\<rparr>"


subsection \<open>The log of callback calls\<close>

text \<open>
  \<open>call_key\<close>: the frame and the identifier of a logged call.  \<open>calls_marked\<close>: every
  logged call is of a frame that is marked as recomputed for the identifier of the call,
  which holds as long as no recomputation ended in an exception other than the
  early-stop signal.
\<close>

definition call_key :: "call \<Rightarrow> frame_ref \<times> gid" where
  "call_key c = (call_frame c, call_gid c)"

definition calls_marked :: "state \<Rightarrow> bool" where
  "calls_marked s =
     (\<forall>c \<in> set (calls s). is_recomputed (frames s (call_frame c)) (call_gid c))"

subsection \<open>A nested example\<close>

text \<open>
  A region whose body enters a child region with the same input and then saves one tensor
  of its own.  The child saves one tensor computed from its input.  Recomputing the parent
  saves, through the inner hook, the child's input (the save of the adapter) and the
  parent's own tensor.
\<close>

fun first_payload :: "val list \<Rightarrow> int" where
  "first_payload (T t # vs) = payload t"
| "first_payload vs = 0"

definition child_saves :: callback where
  "child_saves args = [Tensor (first_payload args + 100) Floating True]"

definition parent_saves :: callback where
  "parent_saves args = [Tensor (first_payload args) Floating True, Tensor 10 Floating True]"



subsection \<open>Reading an input from the parent's cache\<close>


subsection \<open>Replaying with and without early stop\<close>

text \<open>
  \<open>replayable g s f\<close>: frame \<open>f\<close> is already recomputed for the identifier \<open>g\<close>, or it
  has not started to be (its counter for \<open>g\<close> is \<open>0\<close>), it recorded at least one saved
  position, and its callback saves as many tensors as the frame recorded positions
  (the callback performs the same sequence of saves as the original forward did).
\<close>

definition replayable :: "gid \<Rightarrow> state \<Rightarrow> frame_ref \<Rightarrow> bool" where
  "replayable g s f =
     (is_recomputed (frames s f) g \<or>
      (recomp_counter (frames s f) g = 0 \<and> weak_holders (frames s f) \<noteq> [] \<and>
       (\<forall>args. length (recompute_fn (frames s f) args) = length (weak_holders (frames s f)))))"

text \<open>
  Modelled from the spec: the differentiation engine, which is not part of the module,
  requests the restores of a backward pass one after another; each request is a call of
  \<^verbatim>\<open>unpack_hook\<close> on a stored pair, with the graph task id and the generated uuid of that
  call.  The outcomes are collected in order.
\<close>

fun restore_all ::
  "(int \<times> int \<times> holder_ref \<times> frame_ref list) list \<Rightarrow> state \<Rightarrow>
     (error + val) list \<times> state" where
  "restore_all [] s = ([], s)"
| "restore_all ((current, uuid, saved) # reqs) s =
     (case checkpoint_unpack_hook current uuid saved s of
        (r, s') \<Rightarrow> (case restore_all reqs s' of (rs, s'') \<Rightarrow> (r # rs, s'')))"
section \<open>Properties\<close>

subsection \<open>Keyword arguments survive packing\<close>

lemma pack_kwargs_loop_eq:
  "pack_kwargs_loop items flat_args kwarg_keys =
     (flat_args @ map snd items, kwarg_keys @ map fst items)"
  by (induction items flat_args kwarg_keys rule: pack_kwargs_loop.induct) simp_all

lemma dict_setitem_fresh:
  "k \<notin> fst ` set d \<Longrightarrow> dict_setitem d k v = d @ [(k, v)]"
  by (induction d) auto

lemma dict_of_pairs_distinct:
  "distinct (map fst (d @ ps)) \<Longrightarrow> dict_of_pairs d ps = d @ ps"
proof (induction ps arbitrary: d)
  case Nil
  then show ?case by simp
next
  case (Cons p ps)
  obtain k v where p: "p = (k, v)" by (cases p)
  from Cons.prems p have fresh: "k \<notin> fst ` set d" by auto
  from Cons.prems p have "distinct (map fst ((d @ [(k, v)]) @ ps))" by auto
  then have "dict_of_pairs (d @ [(k, v)]) ps = (d @ [(k, v)]) @ ps" by (rule Cons.IH)
  with fresh p show ?case by (simp add: dict_setitem_fresh)
qed

text \<open>
  Claim C10.  For all positional arguments and every keyword dictionary (a dictionary has
  each key once), \<^verbatim>\<open>_unpack_kwargs\<close> applied to the flat tuple and the key tuple that
  \<^verbatim>\<open>_pack_kwargs\<close> returns gives back the positional arguments and the dictionary, with
  the keys in their order.
\<close>

theorem unpack_kwargs_pack_kwargs:
  assumes "distinct (map fst kwargs)"
  shows "unpack_kwargs (fst (pack_kwargs args kwargs)) (snd (pack_kwargs args kwargs)) =
           Inr (args, kwargs)"
proof (cases kwargs)
  case Nil
  then show ?thesis by (simp add: pack_kwargs_def unpack_kwargs_def)
next
  case (Cons p ps)
  have "zip (map fst kwargs) (map snd kwargs) = kwargs" by (simp add: zip_map_fst_snd)
  moreover have "dict_of_pairs [] kwargs = kwargs"
    using dict_of_pairs_distinct [of "[]" kwargs] assms by simp
  ultimately show ?thesis using Cons
    by (simp add: pack_kwargs_def unpack_kwargs_def pack_kwargs_loop_eq)
qed

theorem unpack_kwargs_pack_kwargs_witness:
  "distinct (map fst [(''a'', NonTensor 3), (''b'', NonTensor 4)]) \<and>
   unpack_kwargs
     (fst (pack_kwargs [NonTensor 1, NonTensor 2] [(''a'', NonTensor 3), (''b'', NonTensor 4)]))
     (snd (pack_kwargs [NonTensor 1, NonTensor 2] [(''a'', NonTensor 3), (''b'', NonTensor 4)])) =
   Inr ([NonTensor 1, NonTensor 2], [(''a'', NonTensor 3), (''b'', NonTensor 4)])"
  using unpack_kwargs_pack_kwargs
    [of "[(''a'', NonTensor 3), (''b'', NonTensor 4)]" "[NonTensor 1, NonTensor 2]"]
  by simp

subsection \<open>The inner interceptor's save\<close>

text \<open>
  Claim C5.  A save through the inner interceptor of a frame, for an identifier, adds one
  to the frame's counter for that identifier and looks at the weak holder at the position
  that the counter had before (outside of the list: \<^verbatim>\<open>IndexError\<close>, nothing recorded).
  When the holder was reclaimed, nothing is recorded.  When it is alive, a holder without a
  handle gets a newly allocated one, and the frame's cache for the identifier maps the
  holder's handle to the value itself when the position is in \<^verbatim>\<open>child_args_idx\<close> and
  to its detached copy otherwise.  Whenever the hook returns a value, that value is the
  detached copy.
\<close>

theorem recomputation_pack_hook_save:
  "(let fr = frames s target;
        i = recomp_counter fr g;
        res = recomputation_pack_hook target g x s;
        fr' = frames (snd res) target
    in recomp_counter fr' g = Suc i \<and>
       (if i < length (weak_holders fr) then
          (let hr = weak_holders fr ! i in
           if collected (holders s hr) then
             recomputed fr' = recomputed fr \<and> holders (snd res) = holders s \<and>
             next_handle (snd res) = next_handle s
           else
             (let h = (case handle (holders s hr) of None \<Rightarrow> next_handle s | Some h' \<Rightarrow> h') in
              handle (holders (snd res) hr) = Some h \<and>
              next_handle (snd res) =
                (case handle (holders s hr) of None \<Rightarrow> Suc (next_handle s)
                 | Some h' \<Rightarrow> next_handle s) \<and>
              (if i \<in> set (child_args_idx fr) then recomputed fr' g h = Some x
               else (case detach x of
                       Inr d \<Rightarrow> recomputed fr' g h = Some d
                     | Inl e \<Rightarrow> fst res = Inl e \<and> recomputed fr' = recomputed fr))))
        else fst res = Inl IndexError \<and> recomputed fr' = recomputed fr) \<and>
       (case fst res of Inr v \<Rightarrow> detach x = Inr v | Inl e \<Rightarrow> True))"
  by (auto simp: recomputation_pack_hook_def record_recomputed_def Let_def upd_frame_def
        set_handle_def new_Handle_def
      split: option.splits sum.splits prod.splits if_splits)

subsection \<open>The outer interceptor's save\<close>

text \<open>
  Claim C6.  In a state whose current stack entry has an innermost frame, a save through
  the outer interceptor allocates a new handle and a new holder that owns it, appends the
  (weak) reference to the holder to \<^verbatim>\<open>weak_holders\<close> of the innermost frame of the current
  stack entry, changes nothing else, and returns the pair of the holder and the frame
  sequence of the current stack entry as it is at that moment, outermost first.  Neither
  the result nor the new state depends on the value that is saved.
\<close>

theorem checkpoint_pack_hook_save:
  assumes "checkpoint_stacks s \<noteq> []"
    and "last (checkpoint_stacks s) = (current_frames, is_recompute)"
    and "current_frames \<noteq> []"
  shows "checkpoint_pack_hook x s =
           (Inr (Placeholder (next_holder s) current_frames),
            s\<lparr>next_handle := Suc (next_handle s),
              holders := (holders s)
                (next_holder s := \<lparr>handle = Some (next_handle s), collected = False\<rparr>),
              next_holder := Suc (next_holder s),
              frames := (frames s)
                (last current_frames :=
                   (frames s (last current_frames))
                     \<lparr>weak_holders :=
                        weak_holders (frames s (last current_frames)) @ [next_holder s]\<rparr>)\<rparr>)"
  using assms
  by (simp add: checkpoint_pack_hook_def new_Handle_def new_Holder_def upd_frame_def Let_def)

theorem checkpoint_pack_hook_save_witness:
  "checkpoint_stacks in_region \<noteq> [] \<and>
   last (checkpoint_stacks in_region) = ([0], False) \<and>
   fst (checkpoint_pack_hook (T (Tensor 10 Floating True)) in_region) =
     Inr (Placeholder 0 [0]) \<and>
   weak_holders (frames (snd (checkpoint_pack_hook (T (Tensor 10 Floating True)) in_region)) 0) =
     [0] \<and>
   handle (holders (snd (checkpoint_pack_hook (T (Tensor 10 Floating True)) in_region)) 0) =
     Some 0"
  using checkpoint_pack_hook_save [of in_region "[0]" False "T (Tensor 10 Floating True)"]
  by (simp add: in_region_def init_state_def init_frame_def)

subsection \<open>The nested-input adapter returns its inputs\<close>










subsection \<open>Replaying a frame and the restore loop\<close>

lemma replay_step_refl: "replay_step target g s s"
  by (simp add: replay_step_def same_shape_def)

lemma replay_step_trans:
  "replay_step target g s s' \<Longrightarrow> replay_step target g s' s'' \<Longrightarrow> replay_step target g s s''"
  by (simp add: replay_step_def same_shape_def)

lemma record_recomputed_step:
  "record_recomputed target g i hr x s = (r, s') \<Longrightarrow> replay_step target g s s'"
  by (cases "handle (holders s hr)")
     (auto simp: record_recomputed_def upd_frame_def set_handle_def new_Handle_def
        replay_step_def same_shape_def split: sum.splits if_splits)

lemma count_step:
  "replay_step target g s
     (upd_frame target (\<lambda>fr. fr\<lparr>recomp_counter := (recomp_counter fr)(g := n)\<rparr>) s)"
  by (simp add: upd_frame_def replay_step_def same_shape_def)

lemma recomputation_pack_hook_step:
  assumes "recomputation_pack_hook target g x s = (r, s')"
  shows "replay_step target g s s'"
proof -
  let ?s1 = "upd_frame target (\<lambda>fr. fr\<lparr>recomp_counter :=
     (recomp_counter fr)(g := recomp_counter (frames s target) g + 1)\<rparr>) s"
  have c: "replay_step target g s ?s1" by (rule count_step)
  show ?thesis
  proof (cases "recomp_counter (frames s target) g < length (weak_holders (frames ?s1 target))")
    case False
    with assms have "s' = ?s1" by (simp add: recomputation_pack_hook_def Let_def)
    with c show ?thesis by simp
  next
    case True
    let ?hr = "weak_holders (frames ?s1 target) ! recomp_counter (frames s target) g"
    obtain q s2 where q: "(if collected (holders ?s1 ?hr) then (Inr (), ?s1)
        else record_recomputed target g (recomp_counter (frames s target) g) ?hr x ?s1) = (q, s2)"
      by force
    have "replay_step target g ?s1 s2"
    proof (cases "collected (holders ?s1 ?hr)")
      case True
      with q show ?thesis by (simp add: replay_step_refl)
    next
      case False
      with q show ?thesis by (simp add: record_recomputed_step)
    qed
    with c have c2: "replay_step target g s s2" by (rule replay_step_trans)
    from assms True q have "s' = s2"
      by (simp add: recomputation_pack_hook_def Let_def split: sum.splits if_splits)
    with c2 show ?thesis by simp
  qed
qed

lemma run_saves_replay_step:
  "hooks s = RecomputationHook target g # hs \<Longrightarrow> run_saves xs s = (r, s') \<Longrightarrow>
   replay_step target g s s'"
proof (induction xs arbitrary: s)
  case Nil
  then show ?case by (simp add: replay_step_refl)
next
  case (Cons x xs)
  obtain q s1 where p: "recomputation_pack_hook target g x s = (q, s1)" by force
  then have st: "replay_step target g s s1" by (rule recomputation_pack_hook_step)
  show ?case
  proof (cases q)
    case (Inl e)
    with Cons.prems p st show ?thesis by (simp add: save_for_backward_def)
  next
    case (Inr v)
    from st Cons.prems(1) have h: "hooks s1 = RecomputationHook target g # hs"
      by (simp add: replay_step_def)
    from Inr Cons.prems p have "run_saves xs s1 = (r, s')" by (simp add: save_for_backward_def)
    with h have "replay_step target g s1 s'" by (rule Cons.IH)
    with st show ?thesis by (rule replay_step_trans)
  qed
qed


lemma try_recompute_effect:
  assumes "try_recompute fr g args s = (r, s')"
  shows "calls s' = calls s @ [recompute_call fr g args]"
    and "checkpoint_stacks s' = checkpoint_stacks s @ [([], True)]"
    and "hooks s' = hooks s"
    and "grad_enabled s' = grad_enabled s"
    and "enable_checkpoint_early_stop s' = enable_checkpoint_early_stop s"
    and "next_frame s' = next_frame s"
    and "next_holder s' = next_holder s"
    and "same_shape (frames s f) (frames s' f)"
    and "f \<noteq> fr \<Longrightarrow> frames s' f = frames s f"
    and "g' \<noteq> g \<Longrightarrow> recomp_counter (frames s' fr) g' = recomp_counter (frames s fr) g'"
    and "g' \<noteq> g \<Longrightarrow> recomputed (frames s' fr) g' = recomputed (frames s fr) g'"
    and "collected (holders s' h) = collected (holders s h)"
proof -
  let ?s3 = "s\<lparr>checkpoint_stacks := checkpoint_stacks s @ [([], True)],
               hooks := RecomputationHook fr g # hooks s, grad_enabled := True\<rparr>"
  let ?s3' = "?s3\<lparr>calls := calls s @ [recompute_call fr g args]\<rparr>"
  obtain q s4 where run: "run_saves (map T (recompute_fn (frames s fr) args)) ?s3' = (q, s4)"
    by force
  have "hooks ?s3' = RecomputationHook fr g # hooks s" by simp
  from run_saves_replay_step [OF this run] have st: "replay_step fr g ?s3' s4" .
  from assms run have s': "s' = s4\<lparr>grad_enabled := grad_enabled s, hooks := tl (hooks s4)\<rparr>"
    by (simp add: try_recompute_def call_recompute_fn_def Let_def recompute_call_def)
  from st s' show "calls s' = calls s @ [recompute_call fr g args]"
    and "checkpoint_stacks s' = checkpoint_stacks s @ [([], True)]"
    and "hooks s' = hooks s"
    and "grad_enabled s' = grad_enabled s"
    and "enable_checkpoint_early_stop s' = enable_checkpoint_early_stop s"
    and "next_frame s' = next_frame s"
    and "next_holder s' = next_holder s"
    and "collected (holders s' h) = collected (holders s h)"
    by (simp_all add: replay_step_def)
  from st have "same_shape (frames ?s3' f) (frames s4 f)" unfolding replay_step_def by blast
  with s' show "same_shape (frames s f) (frames s' f)" by simp
  show "frames s' f = frames s f" if "f \<noteq> fr"
  proof -
    from st that have "frames s4 f = frames ?s3' f" unfolding replay_step_def by blast
    with s' show ?thesis by simp
  qed
  show "recomp_counter (frames s' fr) g' = recomp_counter (frames s fr) g'" if "g' \<noteq> g"
  proof -
    from st that have "recomp_counter (frames s4 fr) g' = recomp_counter (frames ?s3' fr) g'"
      unfolding replay_step_def by blast
    with s' show ?thesis by simp
  qed
  show "recomputed (frames s' fr) g' = recomputed (frames s fr) g'" if "g' \<noteq> g"
  proof -
    from st that have "recomputed (frames s4 fr) g' = recomputed (frames ?s3' fr) g'"
      unfolding replay_step_def by blast
    with s' show ?thesis by simp
  qed
qed


lemma restore_step_refl: "restore_step g s s"
  by (simp add: restore_step_def same_recording_def)

lemma restore_stepD:
  assumes "restore_step g s s'"
  shows "enable_checkpoint_early_stop s' = enable_checkpoint_early_stop s"
    and "next_frame s' = next_frame s"
    and "next_holder s' = next_holder s"
    and "hooks s' = hooks s"
    and "grad_enabled s' = grad_enabled s"
    and "same_recording (frames s f) (frames s' f)"
    and "is_recomputed (frames s f) g \<Longrightarrow> frames s' f = frames s f"
    and "g' \<noteq> g \<Longrightarrow> is_recomputed (frames s' f) g' = is_recomputed (frames s f) g'"
    and "g' \<noteq> g \<Longrightarrow> recomp_counter (frames s' f) g' = recomp_counter (frames s f) g'"
    and "g' \<noteq> g \<Longrightarrow> recomputed (frames s' f) g' = recomputed (frames s f) g'"
    and "is_recomputed (frames s f) g' \<Longrightarrow> is_recomputed (frames s' f) g'"
    and "collected (holders s' h) = collected (holders s h)"
  using assms unfolding restore_step_def by blast+

lemma restore_stepI:
  assumes "enable_checkpoint_early_stop s' = enable_checkpoint_early_stop s"
    and "next_frame s' = next_frame s"
    and "next_holder s' = next_holder s"
    and "hooks s' = hooks s"
    and "grad_enabled s' = grad_enabled s"
    and "\<And>f. same_recording (frames s f) (frames s' f)"
    and "\<And>f. is_recomputed (frames s f) g \<Longrightarrow> frames s' f = frames s f"
    and "\<And>f g'. g' \<noteq> g \<Longrightarrow> is_recomputed (frames s' f) g' = is_recomputed (frames s f) g'"
    and "\<And>f g'. g' \<noteq> g \<Longrightarrow> recomp_counter (frames s' f) g' = recomp_counter (frames s f) g'"
    and "\<And>f g'. g' \<noteq> g \<Longrightarrow> recomputed (frames s' f) g' = recomputed (frames s f) g'"
    and "\<And>f g'. is_recomputed (frames s f) g' \<Longrightarrow> is_recomputed (frames s' f) g'"
    and "\<And>h. collected (holders s' h) = collected (holders s h)"
  shows "restore_step g s s'"
  using assms unfolding restore_step_def by blast

lemma same_recording_trans:
  "same_recording a b \<Longrightarrow> same_recording b c \<Longrightarrow> same_recording a c"
  by (simp add: same_recording_def)

lemma restore_step_trans:
  assumes a: "restore_step g s s'" and b: "restore_step g s' s''"
  shows "restore_step g s s''"
proof (rule restore_stepI)
  fix f g'
  show "same_recording (frames s f) (frames s'' f)"
    using restore_stepD(6) [OF a] restore_stepD(6) [OF b] by (rule same_recording_trans)
  show "frames s'' f = frames s f" if "is_recomputed (frames s f) g"
    using that restore_stepD(7) [OF a, of f] restore_stepD(7) [OF b, of f] by simp
  show "is_recomputed (frames s'' f) g' = is_recomputed (frames s f) g'" if "g' \<noteq> g"
    using that restore_stepD(8) [OF a] restore_stepD(8) [OF b] by simp
  show "recomp_counter (frames s'' f) g' = recomp_counter (frames s f) g'" if "g' \<noteq> g"
    using that restore_stepD(9) [OF a] restore_stepD(9) [OF b] by simp
  show "recomputed (frames s'' f) g' = recomputed (frames s f) g'" if "g' \<noteq> g"
    using that restore_stepD(10) [OF a] restore_stepD(10) [OF b] by simp
  show "is_recomputed (frames s'' f) g'" if "is_recomputed (frames s f) g'"
    using that restore_stepD(11) [OF a] restore_stepD(11) [OF b] by simp
next
  show "enable_checkpoint_early_stop s'' = enable_checkpoint_early_stop s"
    using restore_stepD(1) [OF a] restore_stepD(1) [OF b] by simp
  show "next_frame s'' = next_frame s"
    using restore_stepD(2) [OF a] restore_stepD(2) [OF b] by simp
  show "next_holder s'' = next_holder s"
    using restore_stepD(3) [OF a] restore_stepD(3) [OF b] by simp
  show "hooks s'' = hooks s"
    using restore_stepD(4) [OF a] restore_stepD(4) [OF b] by simp
  show "grad_enabled s'' = grad_enabled s"
    using restore_stepD(5) [OF a] restore_stepD(5) [OF b] by simp
  show "collected (holders s'' h) = collected (holders s h)" for h
    using restore_stepD(12) [OF a, of h] restore_stepD(12) [OF b, of h] by simp
qed

lemma recompute_frame_cases:
  assumes "recompute_frame frs g i s = (r, s')"
  obtains
    (skip) "is_recomputed (frames s (frs ! i)) g" "r = Inr ()" "s' = s"
  | (no_args) e where "\<not> is_recomputed (frames s (frs ! i)) g" "frame_args frs g i s = Inl e"
      "r = Inl e" "s' = s"
  | (stopped) a s1 where "\<not> is_recomputed (frames s (frs ! i)) g" "frame_args frs g i s = Inr a"
      "try_recompute (frs ! i) g a s = (Inl StopRecomputationError, s1)" "r = Inr ()"
      "s' = upd_frame (frs ! i) (\<lambda>f. f\<lparr>is_recomputed := (is_recomputed f)(g := True)\<rparr>)
              (s1\<lparr>checkpoint_stacks := butlast (checkpoint_stacks s1)\<rparr>)"
  | (crashed) a e s1 where "\<not> is_recomputed (frames s (frs ! i)) g"
      "frame_args frs g i s = Inr a"
      "try_recompute (frs ! i) g a s = (Inl e, s1)" "e \<noteq> StopRecomputationError"
      "r = Inl e" "s' = s1"
  | (completed) a s1 where "\<not> is_recomputed (frames s (frs ! i)) g"
      "frame_args frs g i s = Inr a"
      "try_recompute (frs ! i) g a s = (Inr (), s1)" "r = Inr ()"
      "s' = upd_frame (frs ! i) (\<lambda>f. f\<lparr>is_recomputed := (is_recomputed f)(g := True)\<rparr>) s1"
proof (cases "is_recomputed (frames s (frs ! i)) g")
  case True
  with assms have "r = Inr ()" "s' = s" by (simp_all add: recompute_frame_def)
  with True show ?thesis by (intro skip)
next
  case unflagged: False
  show ?thesis
  proof (cases "frame_args frs g i s")
    case (Inl e)
    with assms unflagged have "r = Inl e" "s' = s" by (simp_all add: recompute_frame_def)
    with unflagged Inl show ?thesis by (intro no_args)
  next
    case (Inr a)
    obtain q s1 where t: "try_recompute (frs ! i) g a s = (q, s1)" by force
    show ?thesis
    proof (cases q)
      case (Inl e)
      show ?thesis
      proof (cases "e = StopRecomputationError")
        case True
        with assms unflagged Inr t Inl have "r = Inr ()"
          "s' = upd_frame (frs ! i) (\<lambda>f. f\<lparr>is_recomputed := (is_recomputed f)(g := True)\<rparr>)
              (s1\<lparr>checkpoint_stacks := butlast (checkpoint_stacks s1)\<rparr>)"
          by (simp_all add: recompute_frame_def)
        moreover from t Inl True
        have "try_recompute (frs ! i) g a s = (Inl StopRecomputationError, s1)" by simp
        ultimately show ?thesis using unflagged Inr by (intro stopped)
      next
        case False
        with assms unflagged Inr t Inl have "r = Inl e" "s' = s1"
          by (simp_all add: recompute_frame_def)
        moreover from t Inl have "try_recompute (frs ! i) g a s = (Inl e, s1)" by simp
        ultimately show ?thesis using unflagged Inr False by (intro crashed)
      qed
    next
      case r: (Inr u)
      with assms unflagged Inr t have "r = Inr ()"
        "s' = upd_frame (frs ! i) (\<lambda>f. f\<lparr>is_recomputed := (is_recomputed f)(g := True)\<rparr>) s1"
        by (simp_all add: recompute_frame_def)
      moreover from t r have "try_recompute (frs ! i) g a s = (Inr (), s1)" by simp
      ultimately show ?thesis using unflagged Inr by (intro completed)
    qed
  qed
qed


lemma upd_frame_fields:
  "checkpoint_stacks (upd_frame f u s) = checkpoint_stacks s"
  "enable_checkpoint_early_stop (upd_frame f u s) = enable_checkpoint_early_stop s"
  "holders (upd_frame f u s) = holders s"
  "next_frame (upd_frame f u s) = next_frame s"
  "next_holder (upd_frame f u s) = next_holder s"
  "next_handle (upd_frame f u s) = next_handle s"
  "hooks (upd_frame f u s) = hooks s"
  "grad_enabled (upd_frame f u s) = grad_enabled s"
  "calls (upd_frame f u s) = calls s"
  "frames (upd_frame f u s) = (frames s)(f := u (frames s f))"
  by (simp_all add: upd_frame_def)

lemma try_recompute_restore_step:
  assumes u: "\<not> is_recomputed (frames s fr) g" and t: "try_recompute fr g a s = (q, s1)"
  shows "restore_step g s s1"
proof (rule restore_stepI)
  note e = try_recompute_effect [OF t]
  fix f g'
  show "same_recording (frames s f) (frames s1 f)"
    using e(8) [of f] by (simp add: same_shape_def same_recording_def)
  show "frames s1 f = frames s f" if "is_recomputed (frames s f) g"
  proof -
    from that u have "f \<noteq> fr" by auto
    then show ?thesis by (rule e(9))
  qed
  show "is_recomputed (frames s1 f) g' = is_recomputed (frames s f) g'" if "g' \<noteq> g"
    using e(8) [of f] by (simp add: same_shape_def)
  show "recomp_counter (frames s1 f) g' = recomp_counter (frames s f) g'" if "g' \<noteq> g"
    using that e(9) [of f] e(10) [of g'] by (cases "f = fr") simp_all
  show "recomputed (frames s1 f) g' = recomputed (frames s f) g'" if "g' \<noteq> g"
    using that e(9) [of f] e(11) [of g'] by (cases "f = fr") simp_all
  show "is_recomputed (frames s1 f) g'" if "is_recomputed (frames s f) g'"
    using that e(8) [of f] by (simp add: same_shape_def)
next
  note e = try_recompute_effect [OF t]
  show "enable_checkpoint_early_stop s1 = enable_checkpoint_early_stop s" by (rule e(5))
  show "next_frame s1 = next_frame s" by (rule e(6))
  show "next_holder s1 = next_holder s" by (rule e(7))
  show "hooks s1 = hooks s" by (rule e(3))
  show "grad_enabled s1 = grad_enabled s" by (rule e(4))
  show "collected (holders s1 h) = collected (holders s h)" for h by (rule e(12))
qed

lemma mark_restore_step:
  assumes "\<not> is_recomputed (frames s fr) g"
  shows "restore_step g s
           (upd_frame fr (\<lambda>f. f\<lparr>is_recomputed := (is_recomputed f)(g := True)\<rparr>)
              (s\<lparr>checkpoint_stacks := st\<rparr>))"
  using assms
  by (intro restore_stepI) (auto simp: upd_frame_fields same_recording_def)

lemma try_recompute_unflagged:
  assumes "try_recompute fr g a s = (q, s1)"
  shows "is_recomputed (frames s1 f) = is_recomputed (frames s f)"
  using try_recompute_effect(8) [OF assms, of f] by (simp add: same_shape_def)

lemma recompute_frame_effect:
  assumes "recompute_frame frs g i s = (r, s')"
  shows "restore_step g s s'"
    and "is_recomputed (frames s' f) g' =
           (is_recomputed (frames s f) g' \<or> (r = Inr () \<and> f = frs ! i \<and> g' = g))"
    and "calls s' = calls s @
           (if is_recomputed (frames s (frs ! i)) g then []
            else case frame_args frs g i s of
                   Inl e \<Rightarrow> []
                 | Inr a \<Rightarrow> [recompute_call (frs ! i) g a])"
proof -
  have "restore_step g s s' \<and>
    (is_recomputed (frames s' f) g' =
           (is_recomputed (frames s f) g' \<or> (r = Inr () \<and> f = frs ! i \<and> g' = g))) \<and>
    calls s' = calls s @
           (if is_recomputed (frames s (frs ! i)) g then []
            else case frame_args frs g i s of
                   Inl e \<Rightarrow> []
                 | Inr a \<Rightarrow> [recompute_call (frs ! i) g a])"
    using assms
  proof (cases rule: recompute_frame_cases)
    case skip
    then show ?thesis by (auto simp: restore_step_refl)
  next
    case (no_args e)
    then show ?thesis by (auto simp: restore_step_refl)
  next
    case (stopped a s1)
    note t = try_recompute_effect [OF stopped(3)]
    note fl = try_recompute_unflagged [OF stopped(3)]
    have "restore_step g s s1" using stopped(1,3) by (rule try_recompute_restore_step)
    moreover have "restore_step g s1 s'"
      unfolding stopped(5) using stopped(1) fl [of "frs ! i"]
      by (intro mark_restore_step) simp
    ultimately have "restore_step g s s'" by (rule restore_step_trans)
    moreover have "is_recomputed (frames s' f) g' =
           (is_recomputed (frames s f) g' \<or> (r = Inr () \<and> f = frs ! i \<and> g' = g))"
      using stopped(4,5) fl [of f] by (auto simp: upd_frame_fields)
    ultimately show ?thesis using stopped(1,2,5) t(1) by (simp add: upd_frame_fields)
  next
    case (crashed a e s1)
    note t = try_recompute_effect [OF crashed(3)]
    note fl = try_recompute_unflagged [OF crashed(3)]
    have "restore_step g s s'"
      unfolding crashed(6) using crashed(1,3) by (rule try_recompute_restore_step)
    moreover have "is_recomputed (frames s' f) g' =
           (is_recomputed (frames s f) g' \<or> (r = Inr () \<and> f = frs ! i \<and> g' = g))"
      using crashed(5,6) fl [of f] by auto
    ultimately show ?thesis using crashed(1,2,6) t(1) by simp
  next
    case (completed a s1)
    note t = try_recompute_effect [OF completed(3)]
    note fl = try_recompute_unflagged [OF completed(3)]
    have "restore_step g s s1" using completed(1,3) by (rule try_recompute_restore_step)
    moreover have "restore_step g s1
        (upd_frame (frs ! i) (\<lambda>f. f\<lparr>is_recomputed := (is_recomputed f)(g := True)\<rparr>)
              (s1\<lparr>checkpoint_stacks := checkpoint_stacks s1\<rparr>))"
      using completed(1) fl [of "frs ! i"] by (intro mark_restore_step) simp
    ultimately have "restore_step g s s'" unfolding completed(5)
      using restore_step_trans by fastforce
    moreover have "is_recomputed (frames s' f) g' =
           (is_recomputed (frames s f) g' \<or> (r = Inr () \<and> f = frs ! i \<and> g' = g))"
      using completed(4,5) fl [of f] by (auto simp: upd_frame_fields)
    ultimately show ?thesis using completed(1,2,5) t(1) by (simp add: upd_frame_fields)
  qed
  then show "restore_step g s s'"
    and "is_recomputed (frames s' f) g' =
           (is_recomputed (frames s f) g' \<or> (r = Inr () \<and> f = frs ! i \<and> g' = g))"
    and "calls s' = calls s @
           (if is_recomputed (frames s (frs ! i)) g then []
            else case frame_args frs g i s of
                   Inl e \<Rightarrow> []
                 | Inr a \<Rightarrow> [recompute_call (frs ! i) g a])"
    by simp_all
qed

lemma recompute_frame_new_call:
  assumes "recompute_frame frs g i s = (r, s')"
  shows "\<exists>new. calls s' = calls s @ new \<and> length new \<le> 1 \<and>
           (\<forall>c\<in>set new. call_gid c = g \<and> call_frame c = frs ! i \<and>
              \<not> is_recomputed (frames s (frs ! i)) g) \<and>
           (r = Inr () \<longrightarrow> \<not> is_recomputed (frames s (frs ! i)) g \<longrightarrow>
              map call_frame new = [frs ! i])"
proof -
  note e = recompute_frame_effect [OF assms]
  show ?thesis
  proof (cases "is_recomputed (frames s (frs ! i)) g")
    case True
    with e(3) show ?thesis by simp
  next
    case False
    show ?thesis
    proof (cases "frame_args frs g i s")
      case (Inl err)
      from assms False Inl have "r = Inl err" by (simp add: recompute_frame_def)
      with e(3) False Inl show ?thesis by simp
    next
      case (Inr a)
      with e(3) False show ?thesis by (simp add: recompute_call_def)
    qed
  qed
qed

lemma recompute_frames_effect:
  assumes "recompute_frames frs g js s = (r, s')"
  shows "restore_step g s s' \<and>
         (\<exists>new. calls s' = calls s @ new \<and> distinct (map call_frame new) \<and>
            (\<forall>c\<in>set new. call_gid c = g \<and> call_frame c \<in> (\<lambda>i. frs ! i) ` set js \<and>
               \<not> is_recomputed (frames s (call_frame c)) g \<and>
               (r = Inr () \<longrightarrow> is_recomputed (frames s' (call_frame c)) g)) \<and>
            (r = Inr () \<longrightarrow> distinct (map (\<lambda>i. frs ! i) js) \<longrightarrow>
               map call_frame new =
                 filter (\<lambda>f. \<not> is_recomputed (frames s f) g) (map (\<lambda>i. frs ! i) js))) \<and>
         (r = Inr () \<longrightarrow> (\<forall>i\<in>set js. is_recomputed (frames s' (frs ! i)) g))"
  using assms
proof (induction js arbitrary: s)
  case Nil
  then show ?case by (simp add: restore_step_refl)
next
  case (Cons i js)
  obtain q s1 where step: "recompute_frame frs g i s = (q, s1)" by force
  note e = recompute_frame_effect [OF step]
  from recompute_frame_new_call [OF step] obtain new1 where
    n1: "calls s1 = calls s @ new1" "length new1 \<le> 1"
      "\<forall>c\<in>set new1. call_gid c = g \<and> call_frame c = frs ! i \<and>
              \<not> is_recomputed (frames s (frs ! i)) g"
      "q = Inr () \<longrightarrow> \<not> is_recomputed (frames s (frs ! i)) g \<longrightarrow>
              map call_frame new1 = [frs ! i]"
    by (elim exE conjE) (rule that, assumption+)
  show ?case
  proof (cases q)
    case (Inl err)
    with Cons.prems step have rs: "r = Inl err" "s' = s1" by simp_all
    have d: "distinct (map call_frame new1)" using n1(2) by (cases new1) auto
    from e(1) n1 rs d show ?thesis by auto
  next
    case (Inr u)
    with Cons.prems step have rest: "recompute_frames frs g js s1 = (r, s')" by simp
    from Cons.IH [OF rest] obtain new2 where
      st2: "restore_step g s1 s'"
      and n2: "calls s' = calls s1 @ new2" "distinct (map call_frame new2)"
        "\<forall>c\<in>set new2. call_gid c = g \<and> call_frame c \<in> (\<lambda>i. frs ! i) ` set js \<and>
               \<not> is_recomputed (frames s1 (call_frame c)) g \<and>
               (r = Inr () \<longrightarrow> is_recomputed (frames s' (call_frame c)) g)"
        "r = Inr () \<longrightarrow> distinct (map (\<lambda>i. frs ! i) js) \<longrightarrow>
               map call_frame new2 =
                 filter (\<lambda>f. \<not> is_recomputed (frames s1 f) g) (map (\<lambda>i. frs ! i) js)"
      and all2: "r = Inr () \<longrightarrow> (\<forall>i\<in>set js. is_recomputed (frames s' (frs ! i)) g)"
      by (elim exE conjE) (rule that, assumption+)
    have flag1: "is_recomputed (frames s1 f) g =
        (is_recomputed (frames s f) g \<or> f = frs ! i)" for f
      using e(2) [of f g] Inr by simp
    have mono: "is_recomputed (frames s1 f) g \<Longrightarrow> is_recomputed (frames s' f) g" for f
      using restore_stepD(11) [OF st2] .
    have st: "restore_step g s s'" using e(1) st2 by (rule restore_step_trans)
    have c: "calls s' = calls s @ (new1 @ new2)" using n1(1) n2(1) by simp
    have d: "distinct (map call_frame (new1 @ new2))"
    proof -
      have "call_frame c1 \<noteq> call_frame c2" if "c1 \<in> set new1" "c2 \<in> set new2" for c1 c2
      proof -
        from that(1) n1(3) have "call_frame c1 = frs ! i" by blast
        moreover from that(2) n2(3) have "\<not> is_recomputed (frames s1 (call_frame c2)) g"
          by blast
        ultimately show ?thesis using flag1 by auto
      qed
      moreover have "distinct (map call_frame new1)" using n1(2) by (cases new1) auto
      ultimately show ?thesis using n2(2) by auto
    qed
    have p: "\<forall>c\<in>set (new1 @ new2). call_gid c = g \<and>
               call_frame c \<in> (\<lambda>i. frs ! i) ` set (i # js) \<and>
               \<not> is_recomputed (frames s (call_frame c)) g \<and>
               (r = Inr () \<longrightarrow> is_recomputed (frames s' (call_frame c)) g)"
    proof
      fix c assume "c \<in> set (new1 @ new2)"
      then consider (a) "c \<in> set new1" | (b) "c \<in> set new2" by auto
      then show "call_gid c = g \<and>
               call_frame c \<in> (\<lambda>i. frs ! i) ` set (i # js) \<and>
               \<not> is_recomputed (frames s (call_frame c)) g \<and>
               (r = Inr () \<longrightarrow> is_recomputed (frames s' (call_frame c)) g)"
      proof cases
        case a
        with n1(3) have f: "call_gid c = g" "call_frame c = frs ! i"
          "\<not> is_recomputed (frames s (frs ! i)) g" by blast+
        from flag1 [of "frs ! i"] have "is_recomputed (frames s1 (frs ! i)) g" by simp
        then have "is_recomputed (frames s' (frs ! i)) g" by (rule mono)
        with f show ?thesis by simp
      next
        case b
        with n2(3) have f: "call_gid c = g" "call_frame c \<in> (\<lambda>i. frs ! i) ` set js"
          "\<not> is_recomputed (frames s1 (call_frame c)) g"
          "r = Inr () \<longrightarrow> is_recomputed (frames s' (call_frame c)) g" by blast+
        from f(3) flag1 have "\<not> is_recomputed (frames s (call_frame c)) g" by simp
        with f show ?thesis by auto
      qed
    qed
    have o: "map call_frame (new1 @ new2) =
                 filter (\<lambda>f. \<not> is_recomputed (frames s f) g) (map (\<lambda>i. frs ! i) (i # js))"
      if "r = Inr ()" "distinct (map (\<lambda>i. frs ! i) (i # js))"
    proof -
      from that(2) have notin: "frs ! i \<notin> set (map (\<lambda>i. frs ! i) js)"
        and dj: "distinct (map (\<lambda>i. frs ! i) js)" by simp_all
      from n2(4) that(1) dj have
        "map call_frame new2 =
           filter (\<lambda>f. \<not> is_recomputed (frames s1 f) g) (map (\<lambda>i. frs ! i) js)" by blast
      also have "\<dots> = filter (\<lambda>f. \<not> is_recomputed (frames s f) g) (map (\<lambda>i. frs ! i) js)"
      proof (rule filter_cong [OF refl])
        fix f assume "f \<in> set (map (\<lambda>i. frs ! i) js)"
        with notin have "f \<noteq> frs ! i" by metis
        with flag1 [of f]
        show "(\<not> is_recomputed (frames s1 f) g) = (\<not> is_recomputed (frames s f) g)"
          by simp
      qed
      finally have m2: "map call_frame new2 =
        filter (\<lambda>f. \<not> is_recomputed (frames s f) g) (map (\<lambda>i. frs ! i) js)" .
      show ?thesis
      proof (cases "is_recomputed (frames s (frs ! i)) g")
        case True
        with n1(3) have "new1 = []" by (cases new1) auto
        with True m2 show ?thesis by simp
      next
        case False
        with n1(4) Inr have "map call_frame new1 = [frs ! i]" by simp
        with False m2 show ?thesis by simp
      qed
    qed
    have a: "r = Inr () \<longrightarrow> (\<forall>j\<in>set (i # js). is_recomputed (frames s' (frs ! j)) g)"
    proof (intro impI ballI)
      fix j assume r: "r = Inr ()" and j: "j \<in> set (i # js)"
      show "is_recomputed (frames s' (frs ! j)) g"
      proof (cases "j = i")
        case True
        from flag1 [of "frs ! i"] have "is_recomputed (frames s1 (frs ! i)) g" by simp
        with True show ?thesis using mono by simp
      next
        case False
        with j have "j \<in> set js" by simp
        with all2 r show ?thesis by blast
      qed
    qed
    from st c d p o a show ?thesis by blast
  qed
qed

subsection \<open>The example region, evaluated\<close>

lemmas forward_defs = checkpoint_impl_def new_CheckpointFrame_def save_region_args_def
  stack_append_def stack_pop_def save_for_backward_def checkpoint_pack_hook_def
  new_Handle_def new_Holder_def upd_frame_def init_state_def init_frame_def
  example_fn_def saving_body_def example_args_def Let_def

lemmas restore_defs = checkpoint_unpack_hook_def restore_gid_def recompute_frame_def
  frame_args_def try_recompute_def call_recompute_fn_def save_for_backward_def
  recomputation_pack_hook_def record_recomputed_def upd_frame_def set_handle_def
  new_Handle_def Let_def

lemma example_saves_eq [simp]:
  "example_saves a = [Tensor 10 Floating True, Tensor 20 Floating True]"
  by (simp add: example_saves_def)

lemma after_forward_eq:
  "after_forward =
     \<lparr>checkpoint_stacks = [([], False)], enable_checkpoint_early_stop = False,
      frames = (\<lambda>f. init_frame (\<lambda>a. []))
        (0 := \<lparr>recompute_fn = example_saves, maybe_args = Some example_args, args_idx = None,
               child_args_idx = [], args_handles = None, weak_holders = [0, 1],
               recomputed = (\<lambda>g. Map.empty), recomp_counter = (\<lambda>g. 0),
               is_recomputed = (\<lambda>g. False)\<rparr>),
      holders = (\<lambda>h. \<lparr>handle = None, collected = True\<rparr>)
        (0 := \<lparr>handle = Some 0, collected = False\<rparr>,
         1 := \<lparr>handle = Some 1, collected = False\<rparr>),
      next_frame = 1, next_holder = 2, next_handle = 2,
      hooks = [], grad_enabled = True, calls = []\<rparr>"
  by (simp add: after_forward_def forward_defs)

lemma restore_after_forward:
  "checkpoint_unpack_hook 7 0 (0, [0]) after_forward =
     (Inr (T (Tensor 10 Floating False)),
      after_forward
        \<lparr>checkpoint_stacks := [([], False), ([], True)],
         frames := (frames after_forward)
           (0 := (frames after_forward 0)
              \<lparr>recomputed := (\<lambda>g. Map.empty)
                 (7 := [0 \<mapsto> T (Tensor 10 Floating False), 1 \<mapsto> T (Tensor 20 Floating False)]),
               recomp_counter := (\<lambda>g. 0)(7 := 2),
               is_recomputed := (\<lambda>g. False)(7 := True)\<rparr>),
         holders := (holders after_forward)(0 := \<lparr>handle = None, collected = False\<rparr>),
         calls := [recompute_call 0 7 example_args]\<rparr>)"
  by (simp add: after_forward_eq restore_defs recompute_call_def numeral_2_eq_2)

subsection \<open>At most one recomputation of a frame for an identifier\<close>

lemma unpack_hook_loop:
  assumes "frs \<noteq> []"
    and "recompute_frames frs (restore_gid current uuid) [0..<length frs] s = (r, s1)"
  shows "calls (snd (checkpoint_unpack_hook current uuid (hr, frs) s)) = calls s1"
    and "frames (snd (checkpoint_unpack_hook current uuid (hr, frs) s)) = frames s1"
    and "checkpoint_stacks (snd (checkpoint_unpack_hook current uuid (hr, frs) s)) =
           checkpoint_stacks s1"
  using assms
  by (auto simp: checkpoint_unpack_hook_def Let_def set_handle_def
      split: sum.splits option.splits)

lemma set_upt_nth: "(\<lambda>i. frs ! i) ` set [0..<length frs] = set frs"
proof -
  have "map (\<lambda>i. frs ! i) [0..<length frs] = frs" by (rule map_nth)
  then have "set (map (\<lambda>i. frs ! i) [0..<length frs]) = set frs" by simp
  then show ?thesis by simp
qed

text \<open>
  Claim C1.  Take a state in which no frame was called twice for the same identifier and
  every logged call is of a frame marked as recomputed for its identifier (so it is before
  the first restore, and it stays so by this theorem as long as no recomputation ends in
  an exception other than the early-stop signal).  A restore for the identifier \<open>g\<close> only
  adds calls to the log; it calls no frame twice for the same identifier; every call it
  makes is for \<open>g\<close>, of a frame of the captured sequence that was not marked as recomputed
  for \<open>g\<close> before the restore; and when no recomputation ended in such an exception,
  every frame that was called, and every frame of the sequence, is marked as recomputed
  for \<open>g\<close> afterwards, also a frame whose callback was aborted by the early-stop signal.
\<close>

theorem recompute_at_most_once:
  assumes "distinct (map call_key (calls s))" and "calls_marked s"
  shows "(let g = restore_gid current uuid;
              s' = snd (checkpoint_unpack_hook current uuid (hr, frs) s);
              new = drop (length (calls s)) (calls s')
          in take (length (calls s)) (calls s') = calls s \<and>
             distinct (map call_key (calls s')) \<and>
             (\<forall>c \<in> set new.
                call_gid c = g \<and> call_frame c \<in> set frs \<and>
                \<not> is_recomputed (frames s (call_frame c)) g) \<and>
             (fst (recompute_frames frs g [0..<length frs] s) = Inr () \<longrightarrow>
                calls_marked s' \<and> (\<forall>f \<in> set frs. is_recomputed (frames s' f) g)))"
proof (cases "frs = []")
  case True
  with assms show ?thesis by (simp add: checkpoint_unpack_hook_def)
next
  case False
  define g where "g = restore_gid current uuid"
  define s' where "s' = snd (checkpoint_unpack_hook current uuid (hr, frs) s)"
  obtain r s1 where loop: "recompute_frames frs g [0..<length frs] s = (r, s1)" by force
  from unpack_hook_loop [OF False loop [unfolded g_def], of hr]
  have c': "calls s' = calls s1" and f': "frames s' = frames s1" by (simp_all add: s'_def)
  from recompute_frames_effect [OF loop] obtain new where
    st: "restore_step g s s1"
    and n: "calls s1 = calls s @ new" "distinct (map call_frame new)"
      "\<forall>c\<in>set new. call_gid c = g \<and> call_frame c \<in> (\<lambda>i. frs ! i) ` set [0..<length frs] \<and>
               \<not> is_recomputed (frames s (call_frame c)) g \<and>
               (r = Inr () \<longrightarrow> is_recomputed (frames s1 (call_frame c)) g)"
    and al: "r = Inr () \<longrightarrow> (\<forall>i\<in>set [0..<length frs]. is_recomputed (frames s1 (frs ! i)) g)"
    by (elim exE conjE) (rule that, assumption+)
  have new: "drop (length (calls s)) (calls s') = new" using c' n(1) by simp
  have keys_new: "map call_key new = map (\<lambda>c. (call_frame c, g)) new"
    using n(3) by (intro map_cong) (simp_all add: call_key_def)
  have "distinct (map (\<lambda>c. (call_frame c, g)) new)"
    using n(2) by (simp add: distinct_map inj_on_def)
  then have d_new: "distinct (map call_key new)" by (simp only: keys_new)
  have disj: "call_key c1 \<noteq> call_key c2" if "c1 \<in> set (calls s)" "c2 \<in> set new" for c1 c2
  proof
    assume k: "call_key c1 = call_key c2"
    from that(2) n(3) have "call_gid c2 = g" "\<not> is_recomputed (frames s (call_frame c2)) g"
      by blast+
    moreover from that(1) assms(2)
    have "is_recomputed (frames s (call_frame c1)) (call_gid c1)"
      by (simp add: calls_marked_def)
    ultimately show False using k by (simp add: call_key_def)
  qed
  have "set (map call_key (calls s)) \<inter> set (map call_key new) = {}"
  proof (rule ccontr)
    assume "set (map call_key (calls s)) \<inter> set (map call_key new) \<noteq> {}"
    then obtain k where "k \<in> set (map call_key (calls s))" "k \<in> set (map call_key new)"
      by blast
    then obtain c1 c2 where "c1 \<in> set (calls s)" "c2 \<in> set new"
      "call_key c1 = k" "call_key c2 = k" by auto
    with disj [of c1 c2] show False by simp
  qed
  with assms(1) d_new have d: "distinct (map call_key (calls s'))"
    by (simp add: c' n(1))
  have p: "\<forall>c \<in> set new. call_gid c = g \<and> call_frame c \<in> set frs \<and>
                \<not> is_recomputed (frames s (call_frame c)) g"
    using n(3) unfolding set_upt_nth by blast
  have m: "calls_marked s' \<and> (\<forall>f \<in> set frs. is_recomputed (frames s' f) g)" if "r = Inr ()"
  proof
    show "calls_marked s'"
      unfolding calls_marked_def
    proof
      fix c assume "c \<in> set (calls s')"
      then consider (old) "c \<in> set (calls s)" | (new) "c \<in> set new" using c' n(1) by auto
      then show "is_recomputed (frames s' (call_frame c)) (call_gid c)"
      proof cases
        case old
        with assms(2) have "is_recomputed (frames s (call_frame c)) (call_gid c)"
          by (simp add: calls_marked_def)
        then show ?thesis using restore_stepD(11) [OF st] f' by simp
      next
        case new
        with n(3) that show ?thesis using f' by simp
      qed
    qed
    show "\<forall>f \<in> set frs. is_recomputed (frames s' f) g"
    proof
      fix f assume "f \<in> set frs"
      then obtain i where "i < length frs" "f = frs ! i" by (auto simp: in_set_conv_nth)
      with al that show "is_recomputed (frames s' f) g" using f' by simp
    qed
  qed
  from loop have "fst (recompute_frames frs g [0..<length frs] s) = r" by simp
  with d p m new c' n(1) show ?thesis
    unfolding Let_def g_def [symmetric] s'_def [symmetric] by simp
qed

lemma restore_after_forward_early:
  "checkpoint_unpack_hook 7 0 (0, [0]) after_forward_early =
     (Inr (T (Tensor 10 Floating False)),
      after_forward_early
        \<lparr>frames := (frames after_forward)
           (0 := (frames after_forward 0)
              \<lparr>recomputed := (\<lambda>g. Map.empty)
                 (7 := [0 \<mapsto> T (Tensor 10 Floating False), 1 \<mapsto> T (Tensor 20 Floating False)]),
               recomp_counter := (\<lambda>g. 0)(7 := 2),
               is_recomputed := (\<lambda>g. False)(7 := True)\<rparr>),
         holders := (holders after_forward)(0 := \<lparr>handle = None, collected = False\<rparr>),
         calls := [recompute_call 0 7 example_args]\<rparr>)"
  by (simp add: after_forward_early_def after_forward_eq restore_defs recompute_call_def
      numeral_2_eq_2)

lemma loop_after_forward_early:
  "fst (recompute_frames [0] 7 [0..<length [0::nat]] after_forward_early) = Inr ()"
  by (simp add: after_forward_early_def after_forward_eq restore_defs)

theorem recompute_at_most_once_witness:
  "distinct (map call_key (calls after_forward_early)) \<and>
   calls_marked after_forward_early \<and>
   enable_checkpoint_early_stop after_forward_early \<and>
   fst (recompute_frames [0] 7 [0..<length [0::nat]] after_forward_early) = Inr () \<and>
   calls (snd (checkpoint_unpack_hook 7 0 (0, [0]) after_forward_early)) =
     [recompute_call 0 7 example_args] \<and>
   calls_marked (snd (checkpoint_unpack_hook 7 0 (0, [0]) after_forward_early)) \<and>
   is_recomputed (frames (snd (checkpoint_unpack_hook 7 0 (0, [0]) after_forward_early)) 0) 7"
proof -
  have a: "distinct (map call_key (calls after_forward_early))"
    by (simp add: after_forward_early_def after_forward_eq)
  have b: "calls_marked after_forward_early"
    by (simp add: calls_marked_def after_forward_early_def after_forward_eq)
  have c: "enable_checkpoint_early_stop after_forward_early"
    by (simp add: after_forward_early_def)
  have d: "calls (snd (checkpoint_unpack_hook 7 0 (0, [0]) after_forward_early)) =
     [recompute_call 0 7 example_args]"
    by (simp add: restore_after_forward_early)
  from recompute_at_most_once [OF a b, of 7 0 0 "[0]"] loop_after_forward_early
  have "calls_marked (snd (checkpoint_unpack_hook 7 0 (0, [0]) after_forward_early)) \<and>
    is_recomputed (frames (snd (checkpoint_unpack_hook 7 0 (0, [0]) after_forward_early)) 0) 7"
    by (simp add: Let_def restore_gid_def)
  with a b c d loop_after_forward_early show ?thesis by simp
qed

subsection \<open>The stack entry of a recomputation\<close>

lemma recompute_frame_stacks:
  assumes "recompute_frame frs g i s = (r, s')"
  shows "checkpoint_stacks s' =
           (if is_recomputed (frames s (frs ! i)) g then checkpoint_stacks s
            else case frame_args frs g i s of
                   Inl e \<Rightarrow> checkpoint_stacks s
                 | Inr a \<Rightarrow>
                     if fst (try_recompute (frs ! i) g a s) = Inl StopRecomputationError
                     then checkpoint_stacks s
                     else checkpoint_stacks s @ [([], True)])"
  using assms
proof (cases rule: recompute_frame_cases)
  case skip
  then show ?thesis by simp
next
  case (no_args e)
  then show ?thesis by simp
next
  case (stopped a s1)
  with try_recompute_effect(2) [OF stopped(3)] show ?thesis
    by (simp add: upd_frame_fields)
next
  case (crashed a e s1)
  with try_recompute_effect(2) [OF crashed(3)] show ?thesis by simp
next
  case (completed a s1)
  with try_recompute_effect(2) [OF completed(3)] show ?thesis
    by (simp add: upd_frame_fields)
qed

text \<open>
  Claim C4, which the code breaks.  The example region is restored from the state that
  its forward run left, with early stop off as the module has it: the restore returns the
  recomputed value, the hook stack is as before, but \<^verbatim>\<open>_checkpoint_stacks\<close> has kept the
  entry pushed for the recomputation.  With early stop on, the same restore leaves
  \<^verbatim>\<open>_checkpoint_stacks\<close> as it was: only the handler of the early-stop signal pops.
\<close>

theorem restore_leaves_stack_entry:
  "checkpoint_stacks after_forward = [([], False)] \<and>
   hooks after_forward = [] \<and>
   \<not> enable_checkpoint_early_stop after_forward \<and>
   fst (checkpoint_unpack_hook 7 0 (0, [0]) after_forward) =
     Inr (T (Tensor 10 Floating False)) \<and>
   checkpoint_stacks (snd (checkpoint_unpack_hook 7 0 (0, [0]) after_forward)) =
     [([], False), ([], True)] \<and>
   hooks (snd (checkpoint_unpack_hook 7 0 (0, [0]) after_forward)) = [] \<and>
   checkpoint_stacks (snd (checkpoint_unpack_hook 7 0 (0, [0]) after_forward_early)) =
     [([], False)]"
proof -
  have "checkpoint_stacks after_forward = [([], False)]" "hooks after_forward = []"
    "\<not> enable_checkpoint_early_stop after_forward"
    by (simp_all add: after_forward_eq)
  moreover have
    "checkpoint_stacks (snd (checkpoint_unpack_hook 7 0 (0, [0]) after_forward_early)) =
       checkpoint_stacks after_forward"
    unfolding restore_after_forward_early by (simp add: after_forward_early_def)
  ultimately show ?thesis by (simp add: restore_after_forward)
qed

subsection \<open>The outcome of a restore\<close>

lemma recompute_frames_all_marked:
  "\<forall>i\<in>set js. is_recomputed (frames s (frs ! i)) g \<Longrightarrow>
   recompute_frames frs g js s = (Inr (), s)"
  by (induction js) (simp_all add: recompute_frame_def)

lemma unpack_hook_after_loop:
  assumes "frs \<noteq> []"
    and "recompute_frames frs (restore_gid current uuid) [0..<length frs] s = (Inr (), s1)"
  shows "checkpoint_unpack_hook current uuid (hr, frs) s =
           (case handle (holders s1 hr) of
              None \<Rightarrow> (Inl DoubleConsumption, s1)
            | Some h \<Rightarrow>
                (case recomputed (frames s1 (last frs)) (restore_gid current uuid) h of
                   None \<Rightarrow> (Inl MissingRecomputedValue, s1)
                 | Some ret \<Rightarrow> (Inr ret, set_handle hr None s1)))"
  using assms by (simp add: checkpoint_unpack_hook_def Let_def)

lemma unpack_hook_twice:
  assumes "checkpoint_unpack_hook current uuid (hr, frs) s = (Inr ret, s')"
  shows "checkpoint_unpack_hook current uuid (hr, frs) s' = (Inl DoubleConsumption, s')"
proof -
  let ?g = "restore_gid current uuid"
  from assms have ne: "frs \<noteq> []"
    by (auto simp: checkpoint_unpack_hook_def)
  obtain r s1 where loop: "recompute_frames frs ?g [0..<length frs] s = (r, s1)" by force
  with assms ne have r: "r = Inr ()"
    by (cases r) (simp_all add: checkpoint_unpack_hook_def Let_def)
  from assms unpack_hook_after_loop [OF ne loop [unfolded r], of hr]
  have s': "s' = set_handle hr None s1"
    by (auto split: option.splits)
  from recompute_frames_effect [OF loop] r
  have "\<forall>i\<in>set [0..<length frs]. is_recomputed (frames s1 (frs ! i)) ?g" by blast
  then have "\<forall>i\<in>set [0..<length frs]. is_recomputed (frames s' (frs ! i)) ?g"
    by (simp add: s' set_handle_def)
  then have "recompute_frames frs ?g [0..<length frs] s' = (Inr (), s')"
    by (rule recompute_frames_all_marked)
  from unpack_hook_after_loop [OF ne this, of hr] show ?thesis
    by (simp add: s' set_handle_def)
qed

text \<open>
  Claim C2.  When the frame sequence is not empty and the recomputations of the restore
  end without an exception, in the state \<open>s1\<close>: the restore fails with the error of a double
  consumption when the holder's handle is \<open>None\<close> in \<open>s1\<close> (no recomputation gave it a new
  one); it fails with the error of a missing value when the handle has no entry in the
  innermost frame's cache for the identifier; otherwise it sets the holder's handle to
  \<open>None\<close>, changes nothing else, and returns the cached value.  A restore that returned a
  value, asked again for the same holder, frames and identifier, fails with the error of a
  double consumption.
\<close>

theorem unpack_hook_outcome:
  assumes "frs \<noteq> []"
    and "recompute_frames frs (restore_gid current uuid) [0..<length frs] s = (Inr (), s1)"
  shows "checkpoint_unpack_hook current uuid (hr, frs) s =
           (case handle (holders s1 hr) of
              None \<Rightarrow> (Inl DoubleConsumption, s1)
            | Some h \<Rightarrow>
                (case recomputed (frames s1 (last frs)) (restore_gid current uuid) h of
                   None \<Rightarrow> (Inl MissingRecomputedValue, s1)
                 | Some ret \<Rightarrow>
                     (Inr ret,
                      s1\<lparr>holders := (holders s1)(hr := (holders s1 hr)\<lparr>handle := None\<rparr>)\<rparr>))) \<and>
         (case fst (checkpoint_unpack_hook current uuid (hr, frs) s) of
            Inl e \<Rightarrow> True
          | Inr ret \<Rightarrow>
              handle (holders (snd (checkpoint_unpack_hook current uuid (hr, frs) s)) hr) =
                None \<and>
              fst (checkpoint_unpack_hook current uuid (hr, frs)
                     (snd (checkpoint_unpack_hook current uuid (hr, frs) s))) =
                Inl DoubleConsumption)"
proof
  show "checkpoint_unpack_hook current uuid (hr, frs) s =
           (case handle (holders s1 hr) of
              None \<Rightarrow> (Inl DoubleConsumption, s1)
            | Some h \<Rightarrow>
                (case recomputed (frames s1 (last frs)) (restore_gid current uuid) h of
                   None \<Rightarrow> (Inl MissingRecomputedValue, s1)
                 | Some ret \<Rightarrow>
                     (Inr ret,
                      s1\<lparr>holders := (holders s1)(hr := (holders s1 hr)\<lparr>handle := None\<rparr>)\<rparr>)))"
    using unpack_hook_after_loop [OF assms, of hr] unfolding set_handle_def .
  show "case fst (checkpoint_unpack_hook current uuid (hr, frs) s) of
            Inl e \<Rightarrow> True
          | Inr ret \<Rightarrow>
              handle (holders (snd (checkpoint_unpack_hook current uuid (hr, frs) s)) hr) =
                None \<and>
              fst (checkpoint_unpack_hook current uuid (hr, frs)
                     (snd (checkpoint_unpack_hook current uuid (hr, frs) s))) =
                Inl DoubleConsumption"
  proof (cases "fst (checkpoint_unpack_hook current uuid (hr, frs) s)")
    case (Inl e)
    then show ?thesis by simp
  next
    case (Inr ret)
    then have u: "checkpoint_unpack_hook current uuid (hr, frs) s =
      (Inr ret, snd (checkpoint_unpack_hook current uuid (hr, frs) s))"
      by (simp add: prod_eq_iff)
    from u unpack_hook_after_loop [OF assms, of hr]
    have "handle (holders (snd (checkpoint_unpack_hook current uuid (hr, frs) s)) hr) = None"
      by (auto simp: set_handle_def split: option.splits)
    with unpack_hook_twice [OF u] Inr show ?thesis by simp
  qed
qed

theorem unpack_hook_outcome_witness:
  "[0::nat] \<noteq> [] \<and>
   recompute_frames [0] (restore_gid 7 0) [0..<length [0::nat]] after_forward_early =
     (Inr (), snd (recompute_frames [0] (restore_gid 7 0) [0..<length [0::nat]]
                     after_forward_early)) \<and>
   fst (checkpoint_unpack_hook 7 0 (0, [0]) after_forward_early) =
     Inr (T (Tensor 10 Floating False)) \<and>
   handle (holders (snd (checkpoint_unpack_hook 7 0 (0, [0]) after_forward_early)) 0) = None \<and>
   fst (checkpoint_unpack_hook 7 0 (0, [0])
          (snd (checkpoint_unpack_hook 7 0 (0, [0]) after_forward_early))) =
     Inl DoubleConsumption"
proof -
  have l: "recompute_frames [0] (restore_gid 7 0) [0..<length [0::nat]] after_forward_early =
     (Inr (), snd (recompute_frames [0] (restore_gid 7 0) [0..<length [0::nat]]
                     after_forward_early))"
    using loop_after_forward_early by (simp add: prod_eq_iff restore_gid_def)
  have f: "fst (checkpoint_unpack_hook 7 0 (0, [0]) after_forward_early) =
     Inr (T (Tensor 10 Floating False))"
    by (simp add: restore_after_forward_early)
  have ne: "[0::nat] \<noteq> []" by simp
  note t = unpack_hook_outcome [OF ne l, of 0, THEN conjunct2]
  from t [unfolded f]
  have "handle (holders (snd (checkpoint_unpack_hook 7 0 (0, [0]) after_forward_early)) 0) =
      None \<and>
    fst (checkpoint_unpack_hook 7 0 (0, [0])
          (snd (checkpoint_unpack_hook 7 0 (0, [0]) after_forward_early))) =
     Inl DoubleConsumption"
    by (simp only: sum.case)
  then have "handle (holders (snd (checkpoint_unpack_hook 7 0 (0, [0]) after_forward_early)) 0) =
      None"
    and "fst (checkpoint_unpack_hook 7 0 (0, [0])
          (snd (checkpoint_unpack_hook 7 0 (0, [0]) after_forward_early))) =
     Inl DoubleConsumption"
    by (rule conjunct1, rule conjunct2)
  with ne l f show ?thesis by (intro conjI)
qed

subsection \<open>Order and inputs of the recomputations\<close>






lemma child_saves_eq [simp]:
  "child_saves (T t # vs) = [Tensor (payload t + 100) Floating True]"
  by (simp add: child_saves_def)

lemma parent_saves_eq [simp]:
  "parent_saves (T t # vs) = [Tensor (payload t) Floating True, Tensor 10 Floating True]"
  by (simp add: parent_saves_def)







subsection \<open>Entering a region\<close>











end
